theory Spec2Isabelle
  imports Complex_Main
begin

section \<open>Numbers\<close>

text \<open>
  JavaScript numbers are IEEE 754 doubles. A finite double is a dyadic rational; the pair
  \<open>(m, k)\<close> stands for \<open>m / 2 ^ k\<close>. Every arithmetic operation of the script is the
  exact operation followed by rounding to 53 significant bits, nearest, ties to even
  (\<open>round53\<close>). Overflow, subnormal numbers, NaN and the infinities are outside this
  model; the script's numbers (channel values, canvas sizes, luma, random draws) stay
  far from them.
\<close>

type_synonym dbl = "int \<times> nat"

definition dval :: "dbl \<Rightarrow> rat" where
  "dval d = of_int (fst d) / 2 ^ snd d"

function bit_length :: "int \<Rightarrow> nat" where
  "bit_length n = (if n \<le> 0 then 0 else Suc (bit_length (n div 2)))"
  by pat_completeness auto
termination
  by (relation "measure nat") auto

declare bit_length.simps [simp del]

text \<open>Rounding a quotient \<open>q\<close> with remainder \<open>r\<close> out of \<open>d\<close>, ties to even.\<close>

definition round_even :: "int \<Rightarrow> int \<Rightarrow> int \<Rightarrow> int" where
  "round_even q r d = (if 2 * r < d then q else if d < 2 * r then q + 1
                       else if even q then q else q + 1)"

definition round53 :: "int \<Rightarrow> int" where
  "round53 m =
     (let n = \<bar>m\<bar>; s = bit_length n - 53
      in if s = 0 then m
         else sgn m * (round_even (n div 2 ^ s) (n mod 2 ^ s) (2 ^ s) * 2 ^ s))"

definition of_integer :: "int \<Rightarrow> dbl" where
  "of_integer n = (n, 0)"

definition dmul :: "dbl \<Rightarrow> dbl \<Rightarrow> dbl" where
  "dmul a b = (round53 (fst a * fst b), snd a + snd b)"

definition dadd :: "dbl \<Rightarrow> dbl \<Rightarrow> dbl" where
  "dadd a b =
     (let k = max (snd a) (snd b)
      in (round53 (fst a * 2 ^ (k - snd a) + fst b * 2 ^ (k - snd b)), k))"

definition dneg :: "dbl \<Rightarrow> dbl" where
  "dneg a = (- fst a, snd a)"

definition dsub :: "dbl \<Rightarrow> dbl \<Rightarrow> dbl" where
  "dsub a b = dadd a (dneg b)"

text \<open>
  Division by a number other than zero: the quotient is computed with at least 55 bits
  and a sticky bit for the remainder, then rounded. (The script divides the canvas width
  and height by 2, 3 and 1.5 only.)
\<close>

definition ddiv :: "dbl \<Rightarrow> dbl \<Rightarrow> dbl" where
  "ddiv a b =
     (let N = fst a * 2 ^ snd b; D = fst b * 2 ^ snd a;
          n = \<bar>N\<bar>; d = \<bar>D\<bar>;
          s = 55 + bit_length d - bit_length n;
          Q = (n * 2 ^ s) div d; R = (n * 2 ^ s) mod d
      in (sgn N * sgn D * round53 (2 * Q + (if R = 0 then 0 else 1)), s + 1))"

definition dle :: "dbl \<Rightarrow> dbl \<Rightarrow> bool" where
  "dle a b = (fst a * 2 ^ snd b \<le> fst b * 2 ^ snd a)"

definition dlt :: "dbl \<Rightarrow> dbl \<Rightarrow> bool" where
  "dlt a b = (fst a * 2 ^ snd b < fst b * 2 ^ snd a)"

definition dfloor :: "dbl \<Rightarrow> int" where
  "dfloor a = fst a div 2 ^ snd a"

text \<open>
  A store into a \<^verbatim>\<open>Uint8ClampedArray\<close> (the \<^verbatim>\<open>data\<close> of an \<^verbatim>\<open>ImageData\<close>, and the
  \<^verbatim>\<open>gray\<close> array of the outline filter) converts the number with ToUint8Clamp: round to
  the nearest integer, ties to even, and clamp to 0..255. \<open>clamp8\<close> is the conversion of
  a number that is an integer already.
\<close>

definition clamp8 :: "int \<Rightarrow> int" where
  "clamp8 v = max 0 (min 255 v)"

definition round_half_even :: "dbl \<Rightarrow> int" where
  "round_half_even a = round_even (fst a div 2 ^ snd a) (fst a mod 2 ^ snd a) (2 ^ snd a)"

definition toUint8Clamp :: "dbl \<Rightarrow> int" where
  "toUint8Clamp a = clamp8 (round_half_even a)"

text \<open>The literals \<^verbatim>\<open>0.299\<close>, \<^verbatim>\<open>0.587\<close>, \<^verbatim>\<open>0.114\<close> and \<^verbatim>\<open>1.8\<close> as doubles.\<close>

definition c0_299 :: dbl where "c0_299 = (5386305154335113, 54)"
definition c0_587 :: dbl where "c0_587 = (2643612981266481, 52)"
definition c0_114 :: dbl where "c0_114 = (8214565720323785, 56)"
definition c1_8 :: dbl where "c1_8 = (8106479329266893, 52)"

text \<open>\<^verbatim>\<open>r * 0.299 + g * 0.587 + b * 0.114\<close>, evaluated left to right.\<close>

definition luminance :: "int \<Rightarrow> int \<Rightarrow> int \<Rightarrow> dbl" where
  "luminance r g b =
     dadd (dadd (dmul (of_integer r) c0_299) (dmul (of_integer g) c0_587))
          (dmul (of_integer b) c0_114)"

section \<open>The canvas\<close>

text \<open>
  What the script uses of the 2D canvas of the browser. The backing store \<open>pixels\<close> is
  the RGBA bytes of the bitmap, row by row, as \<^verbatim>\<open>getImageData\<close> returns them. The drawing
  state holds what \<^verbatim>\<open>save\<close> pushes and \<^verbatim>\<open>restore\<close> pops. The only transformations the
  script applies are \<^verbatim>\<open>translate(canvas.width, 0)\<close> and \<^verbatim>\<open>scale(-1, 1)\<close>, so the current
  transformation is a map \<open>x \<mapsto> \<plusminus>x + shift\<close> on columns and the identity on rows.
\<close>

datatype error = TypeError | IndexSizeError | InvalidStateError

datatype fill_style = Color string | RadialGradient "dbl list" "(dbl \<times> string) list"

record ctx_state =
  flipped :: bool
  shift :: int
  ctx_filter :: string
  globalCompositeOperation :: string
  fillStyle :: fill_style

record canvas =
  width :: nat
  height :: nat
  className :: string
  pixels :: "int list"
  ctx :: ctx_state
  saved :: "ctx_state list"

record frame =
  videoWidth :: nat
  videoHeight :: nat
  frame_data :: "int list"

text \<open>
  The browser itself is a parameter: the capability query of \<^verbatim>\<open>MediaRecorder\<close>, the
  sequence of numbers \<^verbatim>\<open>Math.random()\<close> returns, the compositing of a fill and of an
  image under a drawing state (gradients, blending, resampling), and the PNG encoder.
  \<open>fillRect\<close> and \<open>drawImage\<close> get the drawing state, the arguments of the call, the
  size of the bitmap and its bytes, and return the new bytes. The bitmap keeps colours
  premultiplied by alpha: \<open>readback\<close> is the pixel that \<^verbatim>\<open>getImageData\<close> returns where
  \<^verbatim>\<open>putImageData\<close> has put a pixel that is neither opaque nor transparent black.
\<close>

record platform =
  isTypeSupported :: "string \<Rightarrow> bool"
  math_random :: "nat \<Rightarrow> dbl"
  fillRect :: "ctx_state \<Rightarrow> dbl list \<Rightarrow> nat \<Rightarrow> nat \<Rightarrow> int list \<Rightarrow> int list"
  drawImage :: "ctx_state \<Rightarrow> frame \<Rightarrow> dbl list \<Rightarrow> nat \<Rightarrow> nat \<Rightarrow> int list \<Rightarrow> int list"
  toDataURL :: "string \<Rightarrow> nat \<Rightarrow> nat \<Rightarrow> int list \<Rightarrow> string"
  readback :: "int list \<Rightarrow> int list"

definition dnat :: "nat \<Rightarrow> dbl" where
  "dnat n = of_integer (int n)"

definition ctx_save :: "canvas \<Rightarrow> canvas" where
  "ctx_save c = c\<lparr>saved := ctx c # saved c\<rparr>"

definition ctx_restore :: "canvas \<Rightarrow> canvas" where
  "ctx_restore c = (case saved c of [] \<Rightarrow> c | st # rest \<Rightarrow> c\<lparr>ctx := st, saved := rest\<rparr>)"

definition translate_x :: "int \<Rightarrow> canvas \<Rightarrow> canvas" where
  "translate_x tx c =
     c\<lparr>ctx := (ctx c)\<lparr>shift := shift (ctx c) + (if flipped (ctx c) then - tx else tx)\<rparr>\<rparr>"

definition scale_mirror :: "canvas \<Rightarrow> canvas" where
  "scale_mirror c = c\<lparr>ctx := (ctx c)\<lparr>flipped := \<not> flipped (ctx c)\<rparr>\<rparr>"

text \<open>The column of user space that the transformation shows at column \<open>x\<close> of the bitmap.\<close>

definition dev_src :: "ctx_state \<Rightarrow> nat \<Rightarrow> int" where
  "dev_src st x = (if flipped st then shift st - 1 - int x else int x - shift st)"

text \<open>\<^verbatim>\<open>ctx.clearRect(0, 0, canvas.width, canvas.height)\<close>: transparent black wherever the
  transformed rectangle lies.\<close>

definition clearRect :: "canvas \<Rightarrow> canvas" where
  "clearRect c =
     c\<lparr>pixels := map (\<lambda>j. let sx = dev_src (ctx c) ((j div 4) mod width c)
                           in if 0 \<le> sx \<and> sx < int (width c) then 0 else pixels c ! j)
                     [0..<length (pixels c)]\<rparr>"

definition opaque :: "int list \<Rightarrow> bool" where
  "opaque data = list_all (\<lambda>j. j mod 4 = 3 \<longrightarrow> data ! j = 255) [0..<length data]"

definition blit :: "ctx_state \<Rightarrow> nat \<Rightarrow> int list \<Rightarrow> int list \<Rightarrow> int list" where
  "blit st w src dst =
     map (\<lambda>j. let sx = dev_src st ((j div 4) mod w)
              in if 0 \<le> sx \<and> sx < int w
                 then src ! (4 * (((j div 4) div w) * w + nat sx) + j mod 4)
                 else dst ! j)
         [0..<length dst]"

text \<open>
  \<^verbatim>\<open>ctx.drawImage(video, 0, 0, canvas.width, canvas.height)\<close>. A frame of the size of the
  canvas, opaque as video frames are, drawn with \<^verbatim>\<open>source-over\<close> and no filter, replaces
  the pixels it covers; anything else is the browser's compositing.
\<close>

definition drawImage_video :: "platform \<Rightarrow> frame \<Rightarrow> canvas \<Rightarrow> canvas" where
  "drawImage_video P video c =
     (if videoWidth video = width c \<and> videoHeight video = height c
         \<and> length (frame_data video) = length (pixels c) \<and> opaque (frame_data video)
         \<and> globalCompositeOperation (ctx c) = ''source-over'' \<and> ctx_filter (ctx c) = ''none''
      then c\<lparr>pixels := blit (ctx c) (width c) (frame_data video) (pixels c)\<rparr>
      else c\<lparr>pixels := drawImage P (ctx c) video
                            [dnat 0, dnat 0, dnat (width c), dnat (height c)]
                            (width c) (height c) (pixels c)\<rparr>)"

text \<open>
  \<^verbatim>\<open>getImageData(0, 0, width, height)\<close> throws an IndexSizeError for an empty
  rectangle. \<^verbatim>\<open>putImageData(imageData, 0, 0)\<close> of data of the size of the canvas replaces
  the backing store, whatever the drawing state. A pixel that is opaque (alpha 255) or
  transparent black is read back as it was put. Any other pixel loses precision in the
  premultiplied bitmap: its four channels are what the browser reads back, bytes again.
\<close>

definition getImageData :: "canvas \<Rightarrow> error + int list" where
  "getImageData c = (if width c = 0 \<or> height c = 0 then Inl IndexSizeError else Inr (pixels c))"

definition putImageData :: "platform \<Rightarrow> int list \<Rightarrow> canvas \<Rightarrow> canvas" where
  "putImageData P data c =
     c\<lparr>pixels := map (\<lambda>j. let i = 4 * (j div 4);
                               px = [data ! i, data ! (i + 1), data ! (i + 2), data ! (i + 3)]
                           in if data ! (i + 3) = 255 \<or> px = [0, 0, 0, 0] then data ! j
                              else clamp8 (readback P px ! (j mod 4)))
                     [0..<length data]\<rparr>"

text \<open>\<^verbatim>\<open>ctx.fillStyle = gradient; ctx.fillRect(0, 0, width, height)\<close>.\<close>

definition fill_gradient :: "platform \<Rightarrow> fill_style \<Rightarrow> canvas \<Rightarrow> canvas" where
  "fill_gradient P g c =
     (let st = (ctx c)\<lparr>fillStyle := g\<rparr>
      in c\<lparr>ctx := st,
           pixels := fillRect P st [dnat 0, dnat 0, dnat (width c), dnat (height c)]
                       (width c) (height c) (pixels c)\<rparr>)"

text \<open>\<^verbatim>\<open>ctx.drawImage(canvas, ...)\<close>, the canvas drawn onto itself: an InvalidStateError
  when the canvas has no pixels.\<close>

definition drawImage_canvas :: "platform \<Rightarrow> dbl list \<Rightarrow> canvas \<Rightarrow> error option \<times> canvas" where
  "drawImage_canvas P args c =
     (if width c = 0 \<or> height c = 0 then (Some InvalidStateError, c)
      else (None, c\<lparr>pixels := drawImage P (ctx c)
                                 \<lparr>videoWidth = width c, videoHeight = height c,
                                  frame_data = pixels c\<rparr>
                                 args (width c) (height c) (pixels c)\<rparr>))"

section \<open>The Persona filter\<close>

text \<open>
  \<^verbatim>\<open>for (let i = 0; i < data.length; i += 4) {
      data[i] = 255 - data[i]; data[i + 1] = 255 - data[i + 1]; data[i + 2] = 255 - data[i + 2]; }\<close>
  A store past the end of a typed array is dropped, as \<open>xs[i := v]\<close> is.
\<close>

function persona_loop :: "nat \<Rightarrow> int list \<Rightarrow> int list" where
  "persona_loop i data =
     (if i < length data then
        (let d1 = data[i := clamp8 (255 - data ! i)];
             d2 = d1[i + 1 := clamp8 (255 - d1 ! (i + 1))];
             d3 = d2[i + 2 := clamp8 (255 - d2 ! (i + 2))]
         in persona_loop (i + 4) d3)
      else data)"
  by pat_completeness auto
termination
  by (relation "measure (\<lambda>(i, data). length data - i)") auto

declare persona_loop.simps [simp del]

section \<open>The Trickster filter\<close>

text \<open>
  \<^verbatim>\<open>const shadowThreshold = 55; const passionFactor = 1.8;
  for (let i = 0; i < data.length; i += 4) {
      const luminance = (data[i] * 0.299 + data[i+1] * 0.587 + data[i+2] * 0.114);
      if (luminance <= shadowThreshold) { data[i] = 0; data[i+1] = 0; data[i+2] = 0; }
      else { data[i] = luminance * passionFactor; data[i+1] = 0; data[i+2] = 0; } }\<close>
\<close>

definition shadowThreshold :: dbl where "shadowThreshold = of_integer 55"
definition passionFactor :: dbl where "passionFactor = c1_8"

function trickster_loop :: "nat \<Rightarrow> int list \<Rightarrow> int list" where
  "trickster_loop i data =
     (if i < length data then
        (let lum = luminance (data ! i) (data ! (i + 1)) (data ! (i + 2))
         in if dle lum shadowThreshold
            then trickster_loop (i + 4) (data[i := 0, i + 1 := 0, i + 2 := 0])
            else trickster_loop (i + 4)
                   (data[i := toUint8Clamp (dmul lum passionFactor), i + 1 := 0, i + 2 := 0]))
      else data)"
  by pat_completeness auto
termination
  by (relation "measure (\<lambda>(i, data). length data - i)") auto

declare trickster_loop.simps [simp del]

section \<open>The Anima filter\<close>

text \<open>
  The grayscale pass:
  \<^verbatim>\<open>const gray = new Uint8ClampedArray(width * height);
  for (let i = 0; i < data.length; i += 4) {
      const luma = data[i] * 0.299 + data[i+1] * 0.587 + data[i+2] * 0.114;
      gray[i / 4] = luma; }\<close>
\<close>

function gray_loop :: "nat \<Rightarrow> int list \<Rightarrow> int list \<Rightarrow> int list" where
  "gray_loop i data gray =
     (if i < length data then
        gray_loop (i + 4) data
          (gray[i div 4 := toUint8Clamp (luminance (data ! i) (data ! (i + 1)) (data ! (i + 2)))])
      else gray)"
  by pat_completeness auto
termination
  by (relation "measure (\<lambda>(i, data, gray). length data - i)") auto

declare gray_loop.simps [simp del]

text \<open>
  The kernel at grayscale index \<open>i\<close>:
  \<^verbatim>\<open>4 * gray[i] - gray[i - 1] - gray[i + 1] - gray[i - width] - gray[i + width]\<close>.
  The operands are integers below 256, so the double arithmetic is exact.
\<close>

definition threshold :: int where "threshold = 20"

definition kernel_val :: "nat \<Rightarrow> int list \<Rightarrow> nat \<Rightarrow> int" where
  "kernel_val w gray i =
     4 * gray ! i - gray ! (i - 1) - gray ! (i + 1) - gray ! (i - w) - gray ! (i + w)"

definition edge_pixel :: "nat \<Rightarrow> int list \<Rightarrow> nat \<Rightarrow> int list \<Rightarrow> int list" where
  "edge_pixel w gray i out =
     (let outI = i * 4
      in if \<bar>kernel_val w gray i\<bar> > threshold
         then out[outI := 255, outI + 1 := 255, outI + 2 := 255, outI + 3 := 255]
         else out[outI := 20, outI + 1 := 20, outI + 2 := 20, outI + 3 := 255])"

text \<open>
  \<^verbatim>\<open>for (let x = 1; x < width - 1; x++)\<close> and \<^verbatim>\<open>for (let y = 1; y < height - 1; y++)\<close>.
  The bounds are written \<open>x + 1 < w\<close> and \<open>y + 1 < h\<close>: for a width or height
  of 0 the script compares with \<open>-1\<close>, where subtraction on \<open>nat\<close> would stop at 0.
\<close>

function anima_x_loop :: "nat \<Rightarrow> nat \<Rightarrow> int list \<Rightarrow> nat \<Rightarrow> nat \<Rightarrow> int list \<Rightarrow> int list" where
  "anima_x_loop w h gray y x out =
     (if x + 1 < w
      then anima_x_loop w h gray y (x + 1) (edge_pixel w gray (y * w + x) out)
      else out)"
  by pat_completeness auto
termination
  by (relation "measure (\<lambda>(w, h, gray, y, x, out). w - x)") auto

declare anima_x_loop.simps [simp del]

function anima_y_loop :: "nat \<Rightarrow> nat \<Rightarrow> int list \<Rightarrow> nat \<Rightarrow> int list \<Rightarrow> int list" where
  "anima_y_loop w h gray y out =
     (if y + 1 < h
      then anima_y_loop w h gray (y + 1) (anima_x_loop w h gray y 1 out)
      else out)"
  by pat_completeness auto
termination
  by (relation "measure (\<lambda>(w, h, gray, y, out). h - y)") auto

declare anima_y_loop.simps [simp del]

text \<open>
  The whole filter on the pixel data of a \<open>w \<times> h\<close> canvas: \<open>out\<close> is the data of
  a fresh \<^verbatim>\<open>createImageData(width, height)\<close>, transparent black throughout.
\<close>

definition anima_data :: "nat \<Rightarrow> nat \<Rightarrow> int list \<Rightarrow> int list" where
  "anima_data w h data =
     (let out = replicate (w * h * 4) 0;
          gray = gray_loop 0 data (replicate (w * h) 0)
      in anima_y_loop w h gray 1 out)"

section \<open>The script's state\<close>

record archetype =
  id' :: string
  name :: string
  symbol :: string
  description :: string

definition archetypes :: "archetype list" where
  "archetypes =
     [\<lparr>id' = ''self'', name = ''The Self'', symbol = ''fa-solid fa-circle-dot'',
       description = ''The unified whole of the conscious and unconscious. Wholeness, integration, and the center of the total personality.''\<rparr>,
      \<lparr>id' = ''persona'', name = ''The Persona'', symbol = ''fa-solid fa-theater-masks'',
       description = ''The social mask or facade you present to the world. It conceals your true self.''\<rparr>,
      \<lparr>id' = ''shadow'', name = ''The Shadow'', symbol = ''fa-solid fa-square-full'',
       description = ''The unknown, dark side of the personality. The repressed, instinctive, and inferior parts of the psyche.''\<rparr>,
      \<lparr>id' = ''anima'', name = ''The Anima/Animus'', symbol = ''fa-solid fa-moon'',
       description = ''The inner, unconscious feminine side in men (Anima) or masculine side in women (Animus). Represents intuition and soul.''\<rparr>,
      \<lparr>id' = ''trickster'', name = ''The Trickster'', symbol = ''fa-solid fa-wand-magic-sparkles'',
       description = ''The archetype of chaos, disruption, and challenging norms. It exposes hypocrisy and creates new possibilities.''\<rparr>]"

text \<open>
  A \<^verbatim>\<open>MediaRecorder\<close>: its MIME type, its \<^verbatim>\<open>state\<close> (\<^verbatim>\<open>inactive\<close> or \<^verbatim>\<open>recording\<close>), and
  whether a \<^verbatim>\<open>stop()\<close> has queued its last \<^verbatim>\<open>dataavailable\<close> and its \<^verbatim>\<open>stop\<close> event.
\<close>

record recorder =
  mimeType :: string
  recorder_state :: string
  stop_queued :: bool

datatype payload = DataURL string | Blob "int list list" string

text \<open>
  The variables of the script (\<open>currentFilter\<close> is \<open>None\<close> when it holds \<^verbatim>\<open>undefined\<close>), the
  part of the page it reads and writes, and what it hands to the browser: alerts, console
  lines, downloads (file name and content), the pending \<^verbatim>\<open>setTimeout(stopRecording, 5000)\<close>
  calls, the pending animation frame request and the position in the sequence of random
  numbers.
\<close>

record app =
  currentFilter :: "archetype option"
  videoReady :: bool
  mediaRecorder :: "recorder option"
  recordedChunks :: "int list list"
  isRecording :: bool
  canvas :: canvas
  descriptionBox_innerHTML :: string
  descriptionBox_visible :: bool
  buttons :: "(string \<times> bool) list"
  randomBtn_disabled :: bool
  screenshotBtn_disabled :: bool
  recordBtn_disabled :: bool
  recordBtn_recording :: bool
  filterList_pointerEvents :: string
  rand_pos :: nat
  alerts :: "string list"
  console :: "(string \<times> string) list"
  downloads :: "(string \<times> payload) list"
  stop_timeouts :: nat
  frame_requested :: bool

text \<open>A statement sequence that an exception cuts short: the state at the throw is kept.\<close>

definition and_then :: "error option \<times> 's \<Rightarrow> ('s \<Rightarrow> error option \<times> 's) \<Rightarrow> error option \<times> 's" where
  "and_then r f = (case r of (None, s) \<Rightarrow> f s | (Some e, s) \<Rightarrow> (Some e, s))"

definition on_canvas :: "(canvas \<Rightarrow> canvas) \<Rightarrow> app \<Rightarrow> app" where
  "on_canvas f s = s\<lparr>canvas := f (canvas s)\<rparr>"

text \<open>\<^verbatim>\<open>Math.random()\<close>.\<close>

definition next_random :: "platform \<Rightarrow> app \<Rightarrow> dbl \<times> app" where
  "next_random P s = (math_random P (rand_pos s), s\<lparr>rand_pos := rand_pos s + 1\<rparr>)"

section \<open>Selecting a filter\<close>

text \<open>
  \<^verbatim>\<open>currentFilter = archetypes.find(a => a.id === filterId);
  canvas.className = currentFilter.id;\<close>
  The assignment comes first; reading \<^verbatim>\<open>.id\<close> of \<^verbatim>\<open>undefined\<close> then throws a TypeError.
\<close>

definition applyFilter :: "string \<Rightarrow> app \<Rightarrow> error option \<times> app" where
  "applyFilter filterId s =
     (let s1 = s\<lparr>currentFilter := find (\<lambda>a. id' a = filterId) archetypes\<rparr>
      in case currentFilter s1 of
           None \<Rightarrow> (Some TypeError, s1)
         | Some cf \<Rightarrow>
             (None,
              s1\<lparr>canvas := (canvas s1)\<lparr>className := id' cf\<rparr>,
                 descriptionBox_innerHTML :=
                   ''<h3>'' @ name cf @ ''</h3><p>'' @ description cf @ ''</p>'',
                 descriptionBox_visible := True,
                 buttons := map (\<lambda>(f, active). (f, f = filterId)) (buttons s1)\<rparr>))"

definition applyDynamicFilter :: "string \<Rightarrow> app \<Rightarrow> app" where
  "applyDynamicFilter filterId s = on_canvas (\<lambda>c. c\<lparr>ctx := (ctx c)\<lparr>ctx_filter := ''none''\<rparr>\<rparr>) s"

section \<open>The slot machine\<close>

text \<open>
  \<^verbatim>\<open>archetypes[Math.floor(Math.random() * archetypes.length)]\<close>; an index outside the
  array gives \<^verbatim>\<open>undefined\<close>.
\<close>

definition draw_index :: "platform \<Rightarrow> nat \<Rightarrow> int" where
  "draw_index P n = dfloor (dmul (math_random P n) (dnat (length archetypes)))"

definition pick_archetype :: "platform \<Rightarrow> app \<Rightarrow> archetype option \<times> app" where
  "pick_archetype P s =
     (let idx = draw_index P (rand_pos s)
      in (if 0 \<le> idx \<and> idx < int (length archetypes) then Some (archetypes ! nat idx) else None,
          snd (next_random P s)))"

text \<open>
  The state of one spin: the counter \<^verbatim>\<open>loops\<close> of the closure and whether its interval
  is still set. \<^verbatim>\<open>randomFilterSlotMachine\<close> starts it with 15 ticks and locks the controls.
\<close>

record spin =
  loops :: int
  interval_active :: bool


text \<open>
  \<^verbatim>\<open>do { finalArch = archetypes[...]; } while (finalArch.id === currentFilter.id);\<close>
  The loop ends only when a draw differs from the current filter: \<open>None\<close> is a run that
  never does.
\<close>

partial_function (option) final_pick :: "platform \<Rightarrow> app \<Rightarrow> ((error + archetype) \<times> app) option" where
  "final_pick P s =
     (case pick_archetype P s of
        (None, s1) \<Rightarrow> Some (Inl TypeError, s1)
      | (Some finalArch, s1) \<Rightarrow>
          (case currentFilter s1 of
             None \<Rightarrow> Some (Inl TypeError, s1)
           | Some cf \<Rightarrow>
               if id' finalArch = id' cf then final_pick P s1 else Some (Inr finalArch, s1)))"

text \<open>
  One firing of the interval callback. Before the last one a tick only shows a random
  archetype (class name of the canvas, active button); the tick that brings \<^verbatim>\<open>loops\<close> to
  0 clears the interval, picks the final archetype, applies it with \<^verbatim>\<open>applyFilter\<close> and
  unlocks the controls.
\<close>

definition spin_tick :: "platform \<Rightarrow> spin \<times> app \<Rightarrow> (error option \<times> spin \<times> app) option" where
  "spin_tick P st =
     (let sp1 = (fst st)\<lparr>loops := loops (fst st) - 1\<rparr>;
          (ra, s1) = pick_archetype P (snd st)
      in case ra of
           None \<Rightarrow> Some (Some TypeError, sp1, s1)
         | Some randomArch \<Rightarrow>
             (let s2 = s1\<lparr>canvas := (canvas s1)\<lparr>className := id' randomArch\<rparr>,
                         buttons := map (\<lambda>(f, active). (f, f = id' randomArch)) (buttons s1)\<rparr>
              in if loops sp1 \<le> 0
                 then (let sp2 = sp1\<lparr>interval_active := False\<rparr>
                       in case final_pick P s2 of
                            None \<Rightarrow> None
                          | Some (Inl e, s3) \<Rightarrow> Some (Some e, sp2, s3)
                          | Some (Inr finalArch, s3) \<Rightarrow>
                              (case applyFilter (id' finalArch) s3 of
                                 (Some e, s4) \<Rightarrow> Some (Some e, sp2, s4)
                               | (None, s4) \<Rightarrow>
                                   Some (None, sp2,
                                         s4\<lparr>randomBtn_disabled := False,
                                            filterList_pointerEvents := ''auto''\<rparr>)))
                 else Some (None, sp1, s2)))"

text \<open>
  The browser firing the interval \<open>n\<close> times. An exception in a callback is reported and
  does not clear the interval; a cleared interval fires no more.
\<close>

primrec fire_ticks :: "platform \<Rightarrow> nat \<Rightarrow> error list \<times> spin \<times> app \<Rightarrow> (error list \<times> spin \<times> app) option" where
  "fire_ticks P 0 st = Some st"
| "fire_ticks P (Suc n) st =
     (if interval_active (fst (snd st))
      then (case spin_tick P (snd st) of
              None \<Rightarrow> None
            | Some (e, st') \<Rightarrow>
                fire_ticks P n (fst st @ (case e of None \<Rightarrow> [] | Some x \<Rightarrow> [x]), st'))
      else Some st)"

section \<open>The overlay filters\<close>

definition c0_85 :: dbl where "c0_85 = (7656119366529843, 53)"
definition c0_95 :: dbl where "c0_95 = (4278419646001971, 52)"
definition c0_5 :: dbl where "c0_5 = (1, 1)"
definition c0_7 :: dbl where "c0_7 = (3152519739159347, 52)"
definition c0_3 :: dbl where "c0_3 = (5404319552844595, 54)"
definition c0_4 :: dbl where "c0_4 = (3602879701896397, 53)"
definition c0_6 :: dbl where "c0_6 = (5404319552844595, 53)"
definition c1_5 :: dbl where "c1_5 = (3, 1)"

definition shadow_gradient :: "canvas \<Rightarrow> fill_style" where
  "shadow_gradient c =
     (let w = dnat (width c); h = dnat (height c)
      in RadialGradient
           [ddiv w (dnat 2), ddiv h (dnat 2), ddiv w (dnat 3),
            ddiv w (dnat 2), ddiv h (dnat 2), ddiv w c1_5]
           [(dnat 0, ''rgba(0,0,0,0)''), (dnat 1, ''rgba(0,0,0,0.85)'')])"

text \<open>One round of the slice glitch:
  \<^verbatim>\<open>const y = Math.random() * height; const h = Math.random() * 30 + 10;
  const xOffset = (Math.random() - 0.5) * 40;
  ctx.drawImage(canvas, xOffset, y, width, h, 0, y, width, h);\<close>\<close>

definition slice_glitch :: "platform \<Rightarrow> app \<Rightarrow> error option \<times> app" where
  "slice_glitch P s =
     (let (r1, s1) = next_random P s; y = dmul r1 (dnat (height (canvas s)));
          (r2, s2) = next_random P s1; h = dadd (dmul r2 (dnat 30)) (dnat 10);
          (r3, s3) = next_random P s2; xOffset = dmul (dsub r3 c0_5) (dnat 40);
          w = dnat (width (canvas s));
          (e, c) = drawImage_canvas P [xOffset, y, w, h, dnat 0, y, w, h] (canvas s3)
      in (e, s3\<lparr>canvas := c\<rparr>))"

primrec slice_glitches :: "platform \<Rightarrow> nat \<Rightarrow> app \<Rightarrow> error option \<times> app" where
  "slice_glitches P 0 s = (None, s)"
| "slice_glitches P (Suc n) s = and_then (slice_glitch P s) (slice_glitches P n)"

text \<open>The RGB split:
  \<^verbatim>\<open>ctx.globalCompositeOperation = 'lighter'; const offset = (Math.random() - 0.5) * 10;
  ctx.drawImage(canvas, offset, 0); ctx.drawImage(canvas, -offset, 0);
  ctx.globalCompositeOperation = 'source-over';\<close>\<close>

definition set_composite :: "string \<Rightarrow> app \<Rightarrow> app" where
  "set_composite op s = on_canvas (\<lambda>c. c\<lparr>ctx := (ctx c)\<lparr>globalCompositeOperation := op\<rparr>\<rparr>) s"

definition draw_self :: "platform \<Rightarrow> dbl list \<Rightarrow> app \<Rightarrow> error option \<times> app" where
  "draw_self P args s = (let (e, c) = drawImage_canvas P args (canvas s) in (e, s\<lparr>canvas := c\<rparr>))"

definition rgb_split :: "platform \<Rightarrow> app \<Rightarrow> error option \<times> app" where
  "rgb_split P s =
     (let s1 = set_composite ''lighter'' s;
          (r, s2) = next_random P s1; offset = dmul (dsub r c0_5) (dnat 10)
      in and_then (draw_self P [offset, dnat 0] s2) (\<lambda>s3.
         and_then (draw_self P [dneg offset, dnat 0] s3) (\<lambda>s4.
         (None, set_composite ''source-over'' s4))))"

definition applyShadowEffect :: "platform \<Rightarrow> app \<Rightarrow> error option \<times> app" where
  "applyShadowEffect P s =
     (let s1 = on_canvas (\<lambda>c. fill_gradient P (shadow_gradient c) c) s;
          (r1, s2) = next_random P s1
      in and_then (if dlt c0_85 r1 then slice_glitches P 2 s2 else (None, s2)) (\<lambda>s3.
         let (r2, s4) = next_random P s3
         in if dlt c0_95 r2 then rgb_split P s4 else (None, s4)))"

definition applyAnimaEffect :: "platform \<Rightarrow> app \<Rightarrow> error option \<times> app" where
  "applyAnimaEffect P s =
     (case getImageData (canvas s) of
        Inl e \<Rightarrow> (Some e, s)
      | Inr data \<Rightarrow>
          (None, on_canvas (putImageData P (anima_data (width (canvas s)) (height (canvas s)) data)) s))"

definition self_gradient :: "canvas \<Rightarrow> fill_style" where
  "self_gradient c =
     (let w = dnat (width c); h = dnat (height c)
      in RadialGradient
           [ddiv w (dnat 2), ddiv h (dnat 2), dmul w c0_7,
            ddiv w (dnat 2), ddiv h (dnat 2), dmul w c0_3]
           [(dnat 0, ''rgba(255, 220, 150, 0.0)''), (dnat 1, ''rgba(255, 220, 150, 0.15)'')])"

definition applySelfEffect :: "platform \<Rightarrow> app \<Rightarrow> error option \<times> app" where
  "applySelfEffect P s = (None, on_canvas (\<lambda>c. fill_gradient P (self_gradient c) c) s)"

definition persona_gradient :: "canvas \<Rightarrow> fill_style" where
  "persona_gradient c =
     (let w = dnat (width c); h = dnat (height c)
      in RadialGradient
           [ddiv w (dnat 2), ddiv h (dnat 2), dmul w c0_4,
            ddiv w (dnat 2), ddiv h (dnat 2), dmul w c0_6]
           [(dnat 0, ''rgba(255, 255, 255, 0.05)''), (dnat 1, ''rgba(0, 0, 0, 0.15)'')])"

definition applyPersonaEffect :: "platform \<Rightarrow> app \<Rightarrow> error option \<times> app" where
  "applyPersonaEffect P s =
     (case getImageData (canvas s) of
        Inl e \<Rightarrow> (Some e, s)
      | Inr data \<Rightarrow>
          (None, on_canvas (\<lambda>c. fill_gradient P (persona_gradient c)
                                   (putImageData P (persona_loop 0 data) c)) s))"

definition applyTricksterEffect :: "platform \<Rightarrow> app \<Rightarrow> error option \<times> app" where
  "applyTricksterEffect P s =
     (case getImageData (canvas s) of
        Inl e \<Rightarrow> (Some e, s)
      | Inr data \<Rightarrow> (None, on_canvas (putImageData P (trickster_loop 0 data)) s))"

text \<open>The \<^verbatim>\<open>switch\<close> has no default: any other id leaves the canvas as it is.\<close>

definition applyOverlayFilter :: "platform \<Rightarrow> string \<Rightarrow> app \<Rightarrow> error option \<times> app" where
  "applyOverlayFilter P filterId s =
     (if filterId = ''shadow'' then applyShadowEffect P s
      else if filterId = ''anima'' then applyAnimaEffect P s
      else if filterId = ''self'' then applySelfEffect P s
      else if filterId = ''persona'' then applyPersonaEffect P s
      else if filterId = ''trickster'' then applyTricksterEffect P s
      else (None, s))"

section \<open>The render loop and the screenshot\<close>

text \<open>
  One run of \<^verbatim>\<open>renderLoop\<close>, with the frame the video shows at that moment. An exception
  leaves the function before \<^verbatim>\<open>ctx.restore()\<close> and before the next frame is requested.
\<close>

definition renderLoop :: "platform \<Rightarrow> frame \<Rightarrow> app \<Rightarrow> error option \<times> app" where
  "renderLoop P video s =
     (if \<not> videoReady s then (None, s\<lparr>frame_requested := True\<rparr>)
      else
        (let s1 = on_canvas ctx_save s;
             s2 = on_canvas (translate_x (int (width (canvas s1)))) s1;
             s3 = on_canvas scale_mirror s2;
             s4 = on_canvas clearRect s3
         in case currentFilter s4 of
              None \<Rightarrow> (Some TypeError, s4)
            | Some cf \<Rightarrow>
                (let s5 = applyDynamicFilter (id' cf) s4;
                     s6 = on_canvas (drawImage_video P video) s5
                 in and_then (applyOverlayFilter P (id' cf) s6) (\<lambda>s7.
                      (None, (on_canvas ctx_restore s7)\<lparr>frame_requested := True\<rparr>)))))"

text \<open>
  \<^verbatim>\<open>takeScreenshot\<close> draws on the same canvas and context as the render loop:
  \<^verbatim>\<open>ctx.save(); ctx.clearRect(...); applyDynamicFilter(currentFilter.id);
  ctx.drawImage(video, ...); applyOverlayFilter(currentFilter.id);
  link.href = canvas.toDataURL('image/png'); ctx.restore(); link.click();\<close>
\<close>

definition takeScreenshot :: "platform \<Rightarrow> frame \<Rightarrow> app \<Rightarrow> error option \<times> app" where
  "takeScreenshot P video s =
     (case currentFilter s of
        None \<Rightarrow> (Some TypeError, s)
      | Some cf \<Rightarrow>
          (let download = ''jungian_mirror_'' @ id' cf @ ''.png'';
               s1 = on_canvas ctx_save s;
               s2 = on_canvas clearRect s1;
               s3 = applyDynamicFilter (id' cf) s2;
               s4 = on_canvas (drawImage_video P video) s3
           in and_then (applyOverlayFilter P (id' cf) s4) (\<lambda>s5.
                (let href = toDataURL P ''image/png'' (width (canvas s5)) (height (canvas s5))
                              (pixels (canvas s5));
                     s6 = on_canvas ctx_restore s5
                 in (None, s6\<lparr>downloads := downloads s6 @ [(download, DataURL href)]\<rparr>)))))"

section \<open>Recording\<close>

definition mimeTypes :: "string list" where
  \<open>mimeTypes =
     [''video/mp4; codecs="avc1.42E01E"'',
      ''video/webm; codecs=vp9'',
      ''video/webm; codecs=vp8'',
      ''video/webm'']\<close>

text \<open>
  \<^verbatim>\<open>stopRecording\<close>: stops the recorder if it is recording, and resets the flag and the
  controls in any case.
\<close>

definition stopRecording :: "app \<Rightarrow> app" where
  "stopRecording s =
     (let s1 = (case mediaRecorder s of
                  None \<Rightarrow> s
                | Some r \<Rightarrow>
                    if recorder_state r = ''recording''
                    then s\<lparr>mediaRecorder :=
                             Some (r\<lparr>recorder_state := ''inactive'', stop_queued := True\<rparr>)\<rparr>
                    else s)
      in s1\<lparr>isRecording := False, recordBtn_recording := False, recordBtn_disabled := False,
            screenshotBtn_disabled := False, randomBtn_disabled := False,
            filterList_pointerEvents := ''auto''\<rparr>)"

text \<open>
  \<^verbatim>\<open>startRecording\<close>. Its first statement is \<^verbatim>\<open>if (isRecording) return;\<close>. No statement of
  it throws, so the outcome is always \<open>None\<close>.
\<close>

definition startRecording :: "platform \<Rightarrow> app \<Rightarrow> error option \<times> app" where
  "startRecording P s =
     (if isRecording s then (None, s)
      else
        (let s1 = s\<lparr>isRecording := True, recordedChunks := [],
                    recordBtn_recording := True, recordBtn_disabled := True,
                    screenshotBtn_disabled := True, randomBtn_disabled := True,
                    filterList_pointerEvents := ''none''\<rparr>
         in case find (isTypeSupported P) mimeTypes of
              None \<Rightarrow>
                (None,
                 stopRecording
                   (s1\<lparr>console := console s1 @
                          [(''error'', ''No supported MIME type found for MediaRecorder'')],
                       alerts := alerts s1 @
                          [''Video recording is not supported on this browser.'']\<rparr>))
            | Some supportedMimeType \<Rightarrow>
                (None,
                 s1\<lparr>console := console s1 @ [(''log'', ''Using MIME type: '' @ supportedMimeType)],
                    mediaRecorder := Some \<lparr>mimeType = supportedMimeType,
                                           recorder_state = ''recording'', stop_queued = False\<rparr>,
                    stop_timeouts := stop_timeouts s1 + 1\<rparr>)))"

text \<open>The \<^verbatim>\<open>ondataavailable\<close> handler: \<^verbatim>\<open>if (event.data.size > 0) recordedChunks.push(event.data)\<close>.\<close>

definition ondataavailable :: "int list \<Rightarrow> app \<Rightarrow> app" where
  "ondataavailable data s =
     (if length data > 0 then s\<lparr>recordedChunks := recordedChunks s @ [data]\<rparr> else s)"

text \<open>
  \<^verbatim>\<open>handleRecordingStop\<close>, the \<^verbatim>\<open>onstop\<close> handler, with the value of \<^verbatim>\<open>Date.now()\<close> in decimal:
  the chunks in order as one blob, downloaded under a name with the extension of the
  recorder's MIME type.
\<close>

definition handleRecordingStop :: "string \<Rightarrow> app \<Rightarrow> error option \<times> app" where
  "handleRecordingStop now s =
     (case mediaRecorder s of
        None \<Rightarrow> (Some TypeError, s)
      | Some r \<Rightarrow>
          (let fileExtension = (if take (length ''video/mp4'') (mimeType r) = ''video/mp4''
                                then ''mp4'' else ''webm'')
           in case currentFilter s of
                None \<Rightarrow> (Some TypeError, s)
              | Some cf \<Rightarrow>
                  (None,
                   s\<lparr>downloads := downloads s @
                        [(''jungian_mirror_'' @ id' cf @ ''_'' @ now @ ''.'' @ fileExtension,
                          Blob (recordedChunks s) (mimeType r))]\<rparr>)))"

section \<open>The state at start-up\<close>

text \<open>
  The state once \<^verbatim>\<open>startCamera\<close> has sized the canvas to the video (\<open>w \<times> h\<close>, which resets
  the bitmap to transparent black and the drawing state to its defaults) and
  \<^verbatim>\<open>initFilterButtons\<close> has made one button per archetype; \<open>currentFilter\<close> is
  \<^verbatim>\<open>archetypes[0]\<close>.
\<close>

definition default_ctx :: ctx_state where
  "default_ctx = \<lparr>flipped = False, shift = 0, ctx_filter = ''none'',
                  globalCompositeOperation = ''source-over'', fillStyle = Color ''#000000''\<rparr>"

definition init_canvas :: "nat \<Rightarrow> nat \<Rightarrow> canvas" where
  "init_canvas w h = \<lparr>width = w, height = h, className = [],
                      pixels = replicate (4 * (w * h)) 0, ctx = default_ctx, saved = []\<rparr>"

definition init_app :: "nat \<Rightarrow> nat \<Rightarrow> app" where
  "init_app w h =
     \<lparr>currentFilter = Some (archetypes ! 0), videoReady = True, mediaRecorder = None,
      recordedChunks = [], isRecording = False, canvas = init_canvas w h,
      descriptionBox_innerHTML = [], descriptionBox_visible = False,
      buttons = map (\<lambda>a. (id' a, False)) archetypes,
      randomBtn_disabled = False, screenshotBtn_disabled = False, recordBtn_disabled = False,
      recordBtn_recording = False, filterList_pointerEvents = ''auto'', rand_pos = 0,
      alerts = [], console = [], downloads = [], stop_timeouts = 0, frame_requested = False\<rparr>"

section \<open>Reading pixels\<close>

text \<open>
  For stating properties: channel \<open>k\<close> of the pixel in column \<open>x\<close> and row \<open>y\<close> of a canvas,
  the four channels of that pixel, its entry in the luma grid (\<^verbatim>\<open>gray\<close>), and the Laplacian
  \<open>4 * center - left - right - top - bottom\<close> of the luma grid as the specification words it.
\<close>

definition px_at :: "canvas \<Rightarrow> nat \<Rightarrow> nat \<Rightarrow> nat \<Rightarrow> int" where
  "px_at c x y k = pixels c ! (4 * (y * width c + x) + k)"

definition rgba_at :: "canvas \<Rightarrow> nat \<Rightarrow> nat \<Rightarrow> int list" where
  "rgba_at c x y = [px_at c x y 0, px_at c x y 1, px_at c x y 2, px_at c x y 3]"

definition luma_at :: "canvas \<Rightarrow> nat \<Rightarrow> nat \<Rightarrow> int" where
  "luma_at c x y = toUint8Clamp (luminance (px_at c x y 0) (px_at c x y 1) (px_at c x y 2))"

definition spec_laplacian :: "canvas \<Rightarrow> nat \<Rightarrow> nat \<Rightarrow> int" where
  "spec_laplacian c x y =
     4 * luma_at c x y - luma_at c (x - 1) y - luma_at c (x + 1) y
       - luma_at c x (y - 1) - luma_at c x (y + 1)"

text \<open>
  The luma of the specification, \<open>0.299 R + 0.587 G + 0.114 B\<close>, as an exact rational
  number, to compare the double arithmetic of the script with; and the colours whose
  luma is 55 exactly, the threshold of the Trickster filter.
\<close>

definition spec_luma :: "int \<Rightarrow> int \<Rightarrow> int \<Rightarrow> rat" where
  "spec_luma r g b = 299 / 1000 * of_int r + 587 / 1000 * of_int g + 114 / 1000 * of_int b"

definition luma_55 :: "(int \<times> int \<times> int) list" where
  "luma_55 =
     [(0, 50, 225), (3, 71, 109), (7, 61, 150), (10, 82, 34), (11, 51, 191), (14, 72, 75),
      (15, 41, 232), (18, 62, 116), (21, 83, 0), (22, 52, 157), (25, 73, 41), (26, 42, 198),
      (29, 63, 82), (30, 32, 239), (33, 53, 123), (36, 74, 7), (37, 43, 164), (40, 64, 48),
      (41, 33, 205), (44, 54, 89), (45, 23, 246), (48, 44, 130), (51, 65, 14), (52, 34, 171),
      (55, 55, 55), (56, 24, 212), (59, 45, 96), (60, 14, 253), (63, 35, 137), (66, 56, 21),
      (67, 25, 178), (70, 46, 62), (71, 15, 219), (74, 36, 103), (78, 26, 144), (81, 47, 28),
      (82, 16, 185), (85, 37, 69), (86, 6, 226), (89, 27, 110), (93, 17, 151), (96, 38, 35),
      (97, 7, 192), (100, 28, 76), (104, 18, 117), (107, 39, 1), (108, 8, 158), (111, 29, 42),
      (115, 19, 83), (119, 9, 124), (122, 30, 8), (126, 20, 49), (130, 10, 90), (134, 0, 131),
      (137, 21, 15), (141, 11, 56), (145, 1, 97), (152, 12, 22), (156, 2, 63), (167, 3, 29)]"

text \<open>The state whose canvas holds the given pixel bytes.\<close>

definition with_pixels :: "int list \<Rightarrow> app \<Rightarrow> app" where
  "with_pixels data s = on_canvas (\<lambda>c. c\<lparr>pixels := data\<rparr>) s"

text \<open>Every pixel has the R, G and B of the first pixel.\<close>

definition uniform_colour :: "canvas \<Rightarrow> bool" where
  "uniform_colour c =
     list_all (\<lambda>j. j mod 4 = 3 \<or> pixels c ! j = pixels c ! (j mod 4)) [0..<length (pixels c)]"

text \<open>
  A pixel buffer of valid shape: four channels per pixel, every channel a byte. The
  browser's own drawing keeps buffers in that shape; \<open>platform_ok\<close> says so of the two
  drawing operations the model leaves to it.
\<close>

definition bytes :: "int list \<Rightarrow> bool" where
  "bytes data = list_all (\<lambda>v. 0 \<le> v \<and> v \<le> 255) data"

definition canvas_inv :: "nat \<Rightarrow> nat \<Rightarrow> canvas \<Rightarrow> bool" where
  "canvas_inv w h c \<longleftrightarrow>
     width c = w \<and> height c = h \<and> length (pixels c) = 4 * (w * h) \<and> bytes (pixels c)"

definition platform_ok :: "platform \<Rightarrow> bool" where
  "platform_ok P \<longleftrightarrow>
     (\<forall>st args w h px. length px = 4 * (w * h) \<and> bytes px \<longrightarrow>
        length (fillRect P st args w h px) = 4 * (w * h) \<and> bytes (fillRect P st args w h px))
     \<and> (\<forall>st img args w h px. length px = 4 * (w * h) \<and> bytes px \<longrightarrow>
        length (drawImage P st img args w h px) = 4 * (w * h)
        \<and> bytes (drawImage P st img args w h px))"

text \<open>
  For stating properties: pixel data of rows of \<open>w\<close> pixels with every row reversed, the
  image as the mirrored render loop shows it.
\<close>

definition mirror_rows :: "nat \<Rightarrow> int list \<Rightarrow> int list" where
  "mirror_rows w data =
     map (\<lambda>j. data ! (4 * (((j div 4) div w) * w + (w - 1 - (j div 4) mod w)) + j mod 4))
         [0..<length data]"

text \<open>
  What an overlay may change: \<open>overlay_frame s s'\<close> says that \<open>s'\<close> is \<open>s\<close> up to the pixels and
  the drawing state of the canvas and the position in the random numbers. \<open>overlay_step\<close>
  adds that the step throws nothing on a canvas that has pixels.
\<close>

definition overlay_frame :: "app \<Rightarrow> app \<Rightarrow> bool" where
  "overlay_frame s s' \<longleftrightarrow>
     (\<exists>px st n. s' = s\<lparr>canvas := (canvas s)\<lparr>pixels := px, ctx := st\<rparr>, rand_pos := n\<rparr>)"

definition overlay_step :: "app \<Rightarrow> error option \<times> app \<Rightarrow> bool" where
  "overlay_step s r \<longleftrightarrow>
     overlay_frame s (snd r) \<and> (0 < width (canvas s) \<and> 0 < height (canvas s) \<longrightarrow> fst r = None)"



text \<open>
  A browser to run examples on: its fills and image draws of the kind the model leaves
  to it turn every channel to 255 and to 0, it supports no recording format but plain
  WebM, its random numbers alternate between 0 and 0.5, and a pixel that is neither
  opaque nor transparent black is read back with its alpha and no colour.
\<close>

definition example_platform :: platform where
  "example_platform =
     \<lparr>isTypeSupported = (\<lambda>t. t = ''video/webm''),
      math_random = (\<lambda>n. if even n then (0, 0) else (1, 1)),
      fillRect = (\<lambda>st args w h px. map (\<lambda>v. 255) px),
      drawImage = (\<lambda>st img args w h px. map (\<lambda>v. 0) px),
      toDataURL = (\<lambda>type w h px. ''data:image/png;base64,''),
      readback = (\<lambda>px. [0, 0, 0, px ! 3])\<rparr>"

section \<open>Properties\<close>

lemma clamp8_byte: "0 \<le> v \<Longrightarrow> v \<le> 255 \<Longrightarrow> clamp8 v = v"
  by (simp add: clamp8_def)

lemma mod4_shift:
  assumes "i + 4 \<le> j"
  shows "(j - (i + 4)) mod 4 = (j - i) mod (4::nat)"
proof -
  define k where "k = j - (i + 4)"
  have "j - i = k + 4"
    using assms unfolding k_def by linarith
  then have "(j - i) mod 4 = k mod 4"
    by simp
  then show ?thesis
    unfolding k_def by (rule sym)
qed

lemma quad_cases:
  "\<not> i + 4 \<le> j \<Longrightarrow> j < i \<or> j = i \<or> j = i + 1 \<or> j = i + 2 \<or> j = i + (3::nat)"
  by linarith

lemma persona_loop_length: "length (persona_loop i data) = length data"
proof (induction i data rule: persona_loop.induct)
  case (1 i data)
  show ?case
  proof (cases "i < length data")
    case True
    with "1.IH" show ?thesis
      by (subst persona_loop.simps) (simp add: Let_def)
  next
    case False
    then show ?thesis by (subst persona_loop.simps) simp
  qed
qed

lemma persona_loop_nth:
  "j < length data \<Longrightarrow>
   persona_loop i data ! j =
     (if i \<le> j \<and> (j - i) mod 4 \<noteq> 3 then clamp8 (255 - data ! j) else data ! j)"
proof (induction i data rule: persona_loop.induct)
  case (1 i data)
  show ?case
  proof (cases "i < length data")
    case False
    with "1.prems" show ?thesis by (subst persona_loop.simps) simp
  next
    case True
    define d1 where "d1 = data[i := clamp8 (255 - data ! i)]"
    define d2 where "d2 = d1[i + 1 := clamp8 (255 - d1 ! (i + 1))]"
    define d3 where "d3 = d2[i + 2 := clamp8 (255 - d2 ! (i + 2))]"
    have step: "persona_loop i data = persona_loop (i + 4) d3"
      using True by (subst persona_loop.simps) (simp add: Let_def d1_def d2_def d3_def)
    have len: "j < length d3"
      using "1.prems" by (simp add: d1_def d2_def d3_def)
    have IH: "persona_loop (i + 4) d3 ! j =
        (if i + 4 \<le> j \<and> (j - (i + 4)) mod 4 \<noteq> 3 then clamp8 (255 - d3 ! j) else d3 ! j)"
      using "1.IH" [OF True d1_def d2_def d3_def len] .
    have d3j: "d3 ! j = (if j = i \<or> j = i + 1 \<or> j = i + 2 then clamp8 (255 - data ! j) else data ! j)"
      using "1.prems" by (simp add: d1_def d2_def d3_def nth_list_update)
    have eq: "persona_loop i data ! j =
        (if i + 4 \<le> j \<and> (j - (i + 4)) mod 4 \<noteq> 3
         then clamp8 (255 - (if j = i \<or> j = i + 1 \<or> j = i + 2 then clamp8 (255 - data ! j) else data ! j))
         else (if j = i \<or> j = i + 1 \<or> j = i + 2 then clamp8 (255 - data ! j) else data ! j))"
      by (simp only: step IH d3j)
    show ?thesis
    proof (cases "i + 4 \<le> j")
      case True
      with mod4_shift [OF True] show ?thesis unfolding eq by simp
    next
      case False
      from quad_cases [OF False] show ?thesis unfolding eq
        by (elim disjE) simp_all
    qed
  qed
qed


lemma bytes_nth: "bytes data \<Longrightarrow> j < length data \<Longrightarrow> 0 \<le> data ! j \<and> data ! j \<le> 255"
  by (simp add: bytes_def list_all_length)

lemma persona_loop_byte:
  assumes "bytes data" and "j < length data"
  shows "persona_loop 0 data ! j = (if j mod 4 = 3 then data ! j else 255 - data ! j)"
proof -
  from bytes_nth [OF assms] have "clamp8 (255 - data ! j) = 255 - data ! j"
    by (simp add: clamp8_def)
  with persona_loop_nth [OF assms(2), of 0] show ?thesis
    by simp
qed

lemma persona_loop_twice:
  assumes "bytes data"
  shows "persona_loop 0 (persona_loop 0 data) = data"
proof (rule nth_equalityI)
  show "length (persona_loop 0 (persona_loop 0 data)) = length data"
    by (simp add: persona_loop_length)
next
  fix j
  assume "j < length (persona_loop 0 (persona_loop 0 data))"
  then have j: "j < length data"
    by (simp add: persona_loop_length)
  from bytes_nth [OF assms j] have b: "clamp8 (255 - (255 - data ! j)) = data ! j"
    by (simp add: clamp8_def)
  have "persona_loop 0 (persona_loop 0 data) ! j =
      (if j mod 4 \<noteq> 3 then clamp8 (255 - persona_loop 0 data ! j) else persona_loop 0 data ! j)"
    using persona_loop_nth [of j "persona_loop 0 data" 0] j
    by (simp add: persona_loop_length)
  then show "persona_loop 0 (persona_loop 0 data) ! j = data ! j"
    using persona_loop_byte [OF assms j] b by simp
qed

text \<open>
  C6. The inversion stage of the Persona filter (the loop of \<^verbatim>\<open>applyPersonaEffect\<close> over the
  image data) maps the R, G and B channel of every pixel to 255 minus its value and leaves
  the alpha channel untouched; run twice on any image data it gives the data back, so
  the inversion is an involution on the RGB channels. (The vignette drawn afterwards is
  not part of this stage.)
\<close>

theorem C6_persona_inversion_involution:
  assumes "bytes data"
  shows "(\<forall>j < length data.
            persona_loop 0 data ! j = (if j mod 4 = 3 then data ! j else 255 - data ! j))
         \<and> length (persona_loop 0 data) = length data
         \<and> persona_loop 0 (persona_loop 0 data) = data"
  using assms persona_loop_byte persona_loop_twice persona_loop_length by blast

theorem C6_persona_inversion_involution_witness:
  "bytes [10, 200, 255, 40, 0, 1, 2, 3]
   \<and> persona_loop 0 [10, 200, 255, 40, 0, 1, 2, 3] ! 1 = 55
   \<and> persona_loop 0 [10, 200, 255, 40, 0, 1, 2, 3] ! 3 = 40
   \<and> persona_loop 0 (persona_loop 0 [10, 200, 255, 40, 0, 1, 2, 3]) = [10, 200, 255, 40, 0, 1, 2, 3]"
proof -
  have b: "bytes [10, 200, 255, 40, 0, 1, 2, 3]"
    by (simp add: bytes_def)
  from C6_persona_inversion_involution [OF b] b show ?thesis
    by simp
qed

lemma dle_dval: "dle a b \<longleftrightarrow> dval a \<le> dval b"
proof -
  have "dval a \<le> dval b \<longleftrightarrow> (of_int (fst a) :: rat) * 2 ^ snd b \<le> of_int (fst b) * 2 ^ snd a"
    by (simp add: dval_def field_simps)
  also have "\<dots> \<longleftrightarrow> (of_int (fst a * 2 ^ snd b) :: rat) \<le> of_int (fst b * 2 ^ snd a)"
    by simp
  also have "\<dots> \<longleftrightarrow> fst a * 2 ^ snd b \<le> fst b * 2 ^ snd a"
    by (rule of_int_le_iff)
  finally show ?thesis by (simp add: dle_def)
qed

lemma round_even_nonneg: "0 \<le> q \<Longrightarrow> 0 \<le> round_even q r d"
  by (simp add: round_even_def)

lemma round53_nonneg: "0 \<le> m \<Longrightarrow> 0 \<le> round53 m"
  by (auto simp add: round53_def Let_def sgn_if intro!: mult_nonneg_nonneg round_even_nonneg pos_imp_zdiv_nonneg_iff[THEN iffD2])

lemma round_half_even_nonneg: "0 \<le> fst a \<Longrightarrow> 0 \<le> round_half_even a"
  by (simp add: round_half_even_def round_even_nonneg pos_imp_zdiv_nonneg_iff)

lemma clamp8_range: "0 \<le> clamp8 v \<and> clamp8 v \<le> 255"
  by (simp add: clamp8_def)

lemma toUint8Clamp_range: "0 \<le> toUint8Clamp a \<and> toUint8Clamp a \<le> 255"
  by (simp add: toUint8Clamp_def clamp8_range)

lemma trickster_loop_length: "length (trickster_loop i data) = length data"
proof (induction i data rule: trickster_loop.induct)
  case (1 i data)
  show ?case
  proof (cases "i < length data")
    case True
    with "1.IH" show ?thesis
      by (subst trickster_loop.simps) (simp add: Let_def)
  next
    case False
    then show ?thesis by (subst trickster_loop.simps) simp
  qed
qed


lemma base_ge:
  assumes "i + 4 \<le> j"
  shows "i + 4 \<le> j - (j - i) mod (4::nat)"
proof -
  have "(j - (i + 4)) mod 4 \<le> j - (i + 4)"
    by (rule mod_less_eq_dividend)
  with mod4_shift [OF assms] assms show ?thesis
    by linarith
qed

lemma trickster_loop_nth:
  "j < length data \<Longrightarrow>
   trickster_loop i data ! j =
     (if i \<le> j then
        (if (j - i) mod 4 = 3 then data ! j
         else if dle (luminance (data ! (j - (j - i) mod 4)) (data ! (j - (j - i) mod 4 + 1))
                        (data ! (j - (j - i) mod 4 + 2))) shadowThreshold then 0
         else if (j - i) mod 4 = 0
           then toUint8Clamp
                  (dmul (luminance (data ! (j - (j - i) mod 4)) (data ! (j - (j - i) mod 4 + 1))
                           (data ! (j - (j - i) mod 4 + 2))) passionFactor)
         else 0)
      else data ! j)"
proof (induction i data rule: trickster_loop.induct)
  case (1 i data)
  show ?case
  proof (cases "i < length data")
    case False
    with "1.prems" show ?thesis by (subst trickster_loop.simps) simp
  next
    case True
    define lum where "lum = luminance (data ! i) (data ! (i + 1)) (data ! (i + 2))"
    define v where "v = (if dle lum shadowThreshold then 0 else toUint8Clamp (dmul lum passionFactor))"
    define d' where "d' = data[i := v, i + 1 := 0, i + 2 := 0]"
    have step: "trickster_loop i data = trickster_loop (i + 4) d'"
      using True by (subst trickster_loop.simps) (simp add: Let_def lum_def v_def d'_def)
    have len: "j < length d'"
      using "1.prems" by (simp add: d'_def)
    have IH: "trickster_loop (i + 4) d' ! j =
     (if i + 4 \<le> j then
        (if (j - (i + 4)) mod 4 = 3 then d' ! j
         else if dle (luminance (d' ! (j - (j - (i + 4)) mod 4)) (d' ! (j - (j - (i + 4)) mod 4 + 1))
                        (d' ! (j - (j - (i + 4)) mod 4 + 2))) shadowThreshold then 0
         else if (j - (i + 4)) mod 4 = 0
           then toUint8Clamp
                  (dmul (luminance (d' ! (j - (j - (i + 4)) mod 4)) (d' ! (j - (j - (i + 4)) mod 4 + 1))
                           (d' ! (j - (j - (i + 4)) mod 4 + 2))) passionFactor)
         else 0)
      else d' ! j)"
    proof (cases "dle lum shadowThreshold")
      case True
      then have "d' = data[i := 0, i + 1 := 0, i + 2 := 0]" by (simp add: d'_def v_def)
      from "1.IH"(1) [OF \<open>i < length data\<close> lum_def True, folded this, OF len] show ?thesis .
    next
      case False
      then have "d' = data[i := toUint8Clamp (dmul lum passionFactor), i + 1 := 0, i + 2 := 0]"
        by (simp add: d'_def v_def)
      from "1.IH"(2) [OF \<open>i < length data\<close> lum_def False, folded this, OF len] show ?thesis .
    qed
    have far: "d' ! n = data ! n" if "i + 4 \<le> n" for n
      using that by (simp add: d'_def)
    show ?thesis
    proof (cases "i + 4 \<le> j")
      case True
      note b = base_ge [OF True]
      have b0: "d' ! (j - (j - i) mod 4) = data ! (j - (j - i) mod 4)"
        using b by (intro far) simp
      have b1: "d' ! (j - (j - i) mod 4 + 1) = data ! (j - (j - i) mod 4 + 1)"
        using b by (intro far) simp
      have b2: "d' ! (j - (j - i) mod 4 + 2) = data ! (j - (j - i) mod 4 + 2)"
        using b by (intro far) simp
      from True show ?thesis
        unfolding step IH mod4_shift [OF True] b0 b1 b2 far [OF True] by simp
    next
      case False
      have near: "trickster_loop i data ! j = d' ! j"
        unfolding step IH using False by simp
      from quad_cases [OF False] "1.prems" show ?thesis
        unfolding near
        by (elim disjE) (simp_all add: d'_def v_def lum_def nth_list_update)
    qed
  qed
qed


lemma dval_pos: "0 < dval a \<Longrightarrow> 0 < fst a"
  by (simp add: dval_def zero_less_divide_iff)

lemma toUint8Clamp_nonneg: "0 \<le> fst a \<Longrightarrow> toUint8Clamp a = min 255 (round_half_even a)"
  using round_half_even_nonneg [of a] by (simp add: toUint8Clamp_def clamp8_def)

lemma dmul_nonneg: "0 \<le> fst a \<Longrightarrow> 0 \<le> fst b \<Longrightarrow> 0 \<le> fst (dmul a b)"
  by (simp add: dmul_def round53_nonneg)

text \<open>
  The double arithmetic of the luma against the exact number. Rounding to 53 bits moves
  a number below \<open>2 ^ (53 + t)\<close> by at most \<open>2 ^ t\<close>; the error of the three products and
  two sums of \<open>luminance\<close> on bytes stays below \<open>2 ^ -40\<close>. The comparison with 55 and
  the rounding to a byte then agree with the exact luma, whose values are multiples of
  \<open>1 / 1000\<close>; the sixty colours of luma 55 exactly are evaluated one by one.
\<close>

lemma bit_length_le: "n < 2 ^ k \<Longrightarrow> bit_length n \<le> k"
proof (induction k arbitrary: n)
  case 0
  then show ?case by (subst bit_length.simps) simp
next
  case (Suc k)
  show ?case
  proof (cases "n \<le> 0")
    case True
    then show ?thesis by (subst bit_length.simps) simp
  next
    case False
    from Suc.prems have "n div 2 < 2 ^ k" by simp
    from Suc.IH [OF this] False show ?thesis
      by (subst bit_length.simps) simp
  qed
qed

lemma round_even_err:
  assumes "0 \<le> r" and "r < d"
  shows "\<bar>2 * (round_even q r d * d - (q * d + r))\<bar> \<le> d"
  using assms by (auto simp add: round_even_def algebra_simps)

lemma round53_err:
  assumes "\<bar>m\<bar> < 2 ^ (53 + t)"
  shows "\<bar>round53 m - m\<bar> \<le> 2 ^ t"
proof -
  define s where "s = bit_length \<bar>m\<bar> - 53"
  have "bit_length \<bar>m\<bar> \<le> 53 + t"
    using assms by (rule bit_length_le)
  then have st: "s \<le> t" by (simp add: s_def)
  show ?thesis
  proof (cases "s = 0")
    case True
    then show ?thesis by (simp add: round53_def Let_def s_def)
  next
    case False
    define d :: int where "d = 2 ^ s"
    define q' where "q' = round_even (\<bar>m\<bar> div d) (\<bar>m\<bar> mod d) d"
    have dpos: "0 < d" by (simp add: d_def)
    have r: "round53 m = sgn m * (q' * d)"
      unfolding round53_def Let_def q'_def d_def s_def using False [unfolded s_def] by simp
    have "\<bar>2 * (q' * d - (\<bar>m\<bar> div d * d + \<bar>m\<bar> mod d))\<bar> \<le> d"
      unfolding q'_def using dpos by (intro round_even_err) simp_all
    then have e: "\<bar>q' * d - \<bar>m\<bar>\<bar> \<le> d"
      using dpos by simp
    have "round53 m - m = sgn m * (q' * d - \<bar>m\<bar>)"
      unfolding r by (simp add: algebra_simps sgn_if)
    then have "\<bar>round53 m - m\<bar> \<le> \<bar>q' * d - \<bar>m\<bar>\<bar>"
      by (simp add: abs_mult sgn_if)
    also note e
    also have "d \<le> 2 ^ t"
      unfolding d_def using st by (simp add: power_increasing)
    finally show ?thesis .
  qed
qed

lemma luminance_err:
  assumes "0 \<le> r" "r \<le> 255" "0 \<le> g" "g \<le> 255" "0 \<le> b" "b \<le> 255"
  shows "snd (luminance r g b) = 56"
    and "\<bar>1000 * fst (luminance r g b) - (299 * r + 587 * g + 114 * b) * 2 ^ 56\<bar> \<le> 16531960"
    and "0 \<le> fst (luminance r g b)"
proof -
  define a1 where "a1 = round53 (r * 5386305154335113)"
  define a2 where "a2 = round53 (g * 2643612981266481)"
  define a3 where "a3 = round53 (b * 8214565720323785)"
  define s1 where "s1 = round53 (a1 + a2 * 4)"
  define s2 where "s2 = round53 (s1 * 4 + a3)"
  have L: "luminance r g b = (s2, 56)"
    by (simp add: luminance_def dadd_def dmul_def of_integer_def c0_299_def c0_587_def c0_114_def
        Let_def a1_def a2_def a3_def s1_def s2_def)
  have e1: "\<bar>a1 - r * 5386305154335113\<bar> \<le> 2 ^ 8"
    unfolding a1_def using assms by (intro round53_err) simp
  have e2: "\<bar>a2 - g * 2643612981266481\<bar> \<le> 2 ^ 7"
    unfolding a2_def using assms by (intro round53_err) simp
  have e3: "\<bar>a3 - b * 8214565720323785\<bar> \<le> 2 ^ 8"
    unfolding a3_def using assms by (intro round53_err) simp
  have n1: "0 \<le> a1" "0 \<le> a2" "0 \<le> a3"
    unfolding a1_def a2_def a3_def using assms by (simp_all add: round53_nonneg)
  have e4: "\<bar>s1 - (a1 + a2 * 4)\<bar> \<le> 2 ^ 9"
    unfolding s1_def using assms e1 e2 n1 by (intro round53_err) simp
  have n2: "0 \<le> s1"
    unfolding s1_def using n1 by (simp add: round53_nonneg)
  have e5: "\<bar>s2 - (s1 * 4 + a3)\<bar> \<le> 2 ^ 11"
    unfolding s2_def using assms e1 e2 e3 e4 n1 n2 by (intro round53_err) simp
  have n3: "0 \<le> s2"
    unfolding s2_def using n1 n2 by (simp add: round53_nonneg)
  show "snd (luminance r g b) = 56" by (simp add: L)
  show "0 \<le> fst (luminance r g b)" by (simp add: L n3)
  show "\<bar>1000 * fst (luminance r g b) - (299 * r + 587 * g + 114 * b) * 2 ^ 56\<bar> \<le> 16531960"
    unfolding L fst_conv using assms e1 e2 e3 e4 e5 by simp
qed

lemma luma_55_crushed:
  "list_all (\<lambda>(r, g, b). dle (luminance r g b) shadowThreshold) luma_55"
  unfolding luma_55_def list.pred_inject split_conv
  by code_simp

lemma luma_55_complete_aux:
  "list_all (\<lambda>g. list_all (\<lambda>r. let n = 55000 - 299 * r - 587 * g
       in 0 \<le> n \<and> n mod 114 = 0 \<and> n div 114 \<le> 255 \<longrightarrow> (r, g, n div 114) \<in> set luma_55)
     [(53 * (55000 - 587 * g)) mod 114, (53 * (55000 - 587 * g)) mod 114 + 114]) [0..93]"
  by code_simp

lemma luma_55_complete:
  assumes "0 \<le> r" "r \<le> 255" "0 \<le> g" "g \<le> 255" "0 \<le> b" "b \<le> 255"
    and eq: "299 * r + 587 * g + 114 * b = 55000"
  shows "(r, g, b) \<in> set luma_55"
proof -
  have g: "g \<in> set [0..93]"
    using assms by simp
  have "53 * (55000 - 587 * g) = r + 114 * (53 * b + 139 * r)"
    using eq by simp
  then have r0: "(53 * (55000 - 587 * g)) mod 114 = r mod 114"
    by (simp only: mod_mult_self2)
  have "r \<le> 183"
    using assms by linarith
  with assms(1) have "r = r mod 114 \<or> r = r mod 114 + 114"
    by presburger
  then have r: "r \<in> set [(53 * (55000 - 587 * g)) mod 114, (53 * (55000 - 587 * g)) mod 114 + 114]"
    unfolding r0 by auto
  have n: "55000 - 299 * r - 587 * g = 114 * b"
    using eq by simp
  from luma_55_complete_aux [unfolded list_all_iff, rule_format, OF g r]
  show ?thesis
    unfolding Let_def n using assms(5,6) by simp
qed

lemma luma_threshold:
  assumes "0 \<le> r" "r \<le> 255" "0 \<le> g" "g \<le> 255" "0 \<le> b" "b \<le> 255"
  shows "dle (luminance r g b) shadowThreshold \<longleftrightarrow> spec_luma r g b \<le> 55"
proof -
  define X where "X = 299 * r + 587 * g + 114 * b"
  define F where "F = fst (luminance r g b)"
  note e = luminance_err [OF assms, folded X_def F_def]
  have d: "dle (luminance r g b) shadowThreshold \<longleftrightarrow> F \<le> 55 * 2 ^ 56"
    by (simp add: dle_def shadowThreshold_def of_integer_def e(1) F_def)
  have sl: "spec_luma r g b = of_int X / 1000"
    by (simp add: spec_luma_def X_def add_divide_distrib)
  have s: "spec_luma r g b \<le> 55 \<longleftrightarrow> X \<le> 55000"
    unfolding sl by (simp add: divide_le_eq)
  consider "X < 55000" | "X = 55000" | "55000 < X"
    by linarith
  then show ?thesis
  proof cases
    case 1
    with e(2) have "F \<le> 55 * 2 ^ 56" by simp
    with 1 show ?thesis unfolding d s by simp
  next
    case 2
    from luma_55_complete [OF assms 2 [unfolded X_def]] luma_55_crushed
    have "dle (luminance r g b) shadowThreshold"
      by (auto simp add: list_all_iff)
    with 2 show ?thesis unfolding s by simp
  next
    case 3
    with e(2) have "\<not> F \<le> 55 * 2 ^ 56" by simp
    with 3 show ?thesis unfolding d s by simp
  qed
qed

lemma luma_pin:
  assumes "0 \<le> r" "r \<le> 255" "0 \<le> g" "g \<le> 255" "0 \<le> b" "b \<le> 255"
  shows "\<bar>dval (luminance r g b) - spec_luma r g b\<bar> \<le> 1 / 2 ^ 40"
proof -
  define X where "X = 299 * r + 587 * g + 114 * b"
  define F where "F = fst (luminance r g b)"
  note e = luminance_err [OF assms, folded X_def F_def]
  have s: "spec_luma r g b = of_int X / 1000"
    by (simp add: spec_luma_def X_def add_divide_distrib)
  have v: "dval (luminance r g b) = of_int F / 2 ^ 56"
    by (simp add: dval_def e(1) F_def)
  have "dval (luminance r g b) - spec_luma r g b = of_int (1000 * F - X * 2 ^ 56) / (1000 * 2 ^ 56)"
    unfolding s v by (simp add: field_simps)
  then have "\<bar>dval (luminance r g b) - spec_luma r g b\<bar>
      = \<bar>of_int (1000 * F - X * 2 ^ 56)\<bar> / (1000 * 2 ^ 56)"
    by (simp only: abs_divide; simp)
  also have "\<bar>(of_int (1000 * F - X * 2 ^ 56) :: rat)\<bar> \<le> 16531960"
    using e(2) by (metis of_int_abs of_int_le_iff of_int_numeral)
  then have "\<bar>(of_int (1000 * F - X * 2 ^ 56) :: rat)\<bar> / (1000 * 2 ^ 56) \<le> 16531960 / (1000 * 2 ^ 56)"
    by (rule divide_right_mono) simp
  also have "(16531960 :: rat) / (1000 * 2 ^ 56) \<le> 1 / 2 ^ 40"
    by simp
  finally show ?thesis .
qed

lemma round_half_even_err: "\<bar>2 * (round_half_even a * 2 ^ snd a - fst a)\<bar> \<le> 2 ^ snd a"
proof -
  have "\<bar>2 * (round_even (fst a div 2 ^ snd a) (fst a mod 2 ^ snd a) (2 ^ snd a) * 2 ^ snd a
          - (fst a div 2 ^ snd a * 2 ^ snd a + fst a mod 2 ^ snd a))\<bar> \<le> 2 ^ snd a"
    by (rule round_even_err) simp_all
  then show ?thesis
    by (simp only: round_half_even_def div_mult_mod_eq)
qed

lemma gray_pin:
  assumes "0 \<le> r" "r \<le> 255" "0 \<le> g" "g \<le> 255" "0 \<le> b" "b \<le> 255"
  shows "\<bar>of_int (toUint8Clamp (luminance r g b)) - spec_luma r g b\<bar> \<le> 1 / 2"
proof -
  define X where "X = 299 * r + 587 * g + 114 * b"
  define F where "F = fst (luminance r g b)"
  define R0 where "R0 = round_half_even (luminance r g b)"
  note e = luminance_err [OF assms, folded X_def F_def]
  have X: "0 \<le> X" "X \<le> 255000"
    using assms by (simp_all add: X_def)
  have h: "\<bar>2 * (R0 * 2 ^ 56 - F)\<bar> \<le> 2 ^ 56"
    using round_half_even_err [of "luminance r g b"] by (simp add: e(1) R0_def F_def)
  have i: "\<bar>1000 * R0 - X\<bar> \<le> 500"
    using h e(2) by simp
  have "0 \<le> R0"
    unfolding R0_def using e(3) by (simp add: round_half_even_nonneg F_def)
  moreover have "R0 \<le> 255"
    using i X by simp
  ultimately have c: "toUint8Clamp (luminance r g b) = R0"
    by (simp add: toUint8Clamp_def clamp8_def R0_def)
  have s: "spec_luma r g b = of_int X / 1000"
    by (simp add: spec_luma_def X_def add_divide_distrib)
  have "of_int R0 - spec_luma r g b = of_int (1000 * R0 - X) / 1000"
    unfolding s by (simp add: field_simps)
  then have "\<bar>of_int R0 - spec_luma r g b\<bar> = \<bar>of_int (1000 * R0 - X)\<bar> / 1000"
    by (simp only: abs_divide; simp)
  also have "\<bar>(of_int (1000 * R0 - X) :: rat)\<bar> \<le> 500"
    using i by (metis of_int_abs of_int_le_iff of_int_numeral)
  then have "\<bar>(of_int (1000 * R0 - X) :: rat)\<bar> / 1000 \<le> 500 / 1000"
    by (rule divide_right_mono) simp
  finally show ?thesis
    unfolding c by simp
qed

lemma red_pin:
  assumes "0 \<le> r" "r \<le> 255" "0 \<le> g" "g \<le> 255" "0 \<le> b" "b \<le> 255"
  shows "\<bar>of_int (toUint8Clamp (dmul (luminance r g b) passionFactor))
          - min 255 (18 / 10 * spec_luma r g b)\<bar> \<le> 1 / 2"
proof -
  define X where "X = 299 * r + 587 * g + 114 * b"
  define F where "F = fst (luminance r g b)"
  define T where "T = round53 (F * 8106479329266893)"
  define R0 where "R0 = round_half_even (T, 108)"
  define V where "V = min 255 R0"
  note e = luminance_err [OF assms, folded X_def F_def]
  have X: "0 \<le> X" "X \<le> 255000"
    using assms by (simp_all add: X_def)
  have D: "dmul (luminance r g b) passionFactor = (T, 108)"
    by (simp add: dmul_def passionFactor_def c1_8_def e(1) T_def F_def)
  have t: "\<bar>T - F * 8106479329266893\<bar> \<le> 2 ^ 64"
    unfolding T_def using e(2,3) X by (intro round53_err) simp
  have T0: "0 \<le> T"
    unfolding T_def using e(3) by (simp add: round53_nonneg)
  have h: "\<bar>2 * (R0 * 2 ^ 108 - T)\<bar> \<le> 2 ^ 108"
    using round_half_even_err [of "(T, 108)"] by (simp add: R0_def)
  have j: "\<bar>5000 * R0 - 9 * X\<bar> \<le> 2500"
    using h t e(2) X by simp
  have "0 \<le> R0"
    unfolding R0_def using T0 by (simp add: round_half_even_nonneg)
  have c: "toUint8Clamp (dmul (luminance r g b) passionFactor) = V"
    unfolding D V_def R0_def using T0 by (simp add: toUint8Clamp_nonneg)
  have k: "\<bar>5000 * V - min 1275000 (9 * X)\<bar> \<le> 2500"
    using j by (simp add: V_def)
  have s: "spec_luma r g b = of_int X / 1000"
    by (simp add: spec_luma_def X_def add_divide_distrib)
  have m: "min 255 (18 / 10 * spec_luma r g b) = of_int (min 1275000 (9 * X)) / 5000"
    unfolding s by (simp add: min_def field_simps)
  have "of_int V - min 255 (18 / 10 * spec_luma r g b) = of_int (5000 * V - min 1275000 (9 * X)) / 5000"
    unfolding m by (simp add: field_simps)
  then have "\<bar>of_int V - min 255 (18 / 10 * spec_luma r g b)\<bar>
      = \<bar>of_int (5000 * V - min 1275000 (9 * X))\<bar> / 5000"
    by (simp only: abs_divide; simp)
  also have "\<bar>(of_int (5000 * V - min 1275000 (9 * X)) :: rat)\<bar> \<le> 2500"
    using k by (metis of_int_abs of_int_le_iff of_int_numeral)
  then have "\<bar>(of_int (5000 * V - min 1275000 (9 * X)) :: rat)\<bar> / 5000 \<le> 2500 / 5000"
    by (rule divide_right_mono) simp
  finally show ?thesis
    unfolding c by simp
qed

lemma trickster_pixel:
  assumes "length data = 4 * n" and "p < n"
  shows "trickster_loop 0 data ! (4 * p + 3) = data ! (4 * p + 3)"
    and "trickster_loop 0 data ! (4 * p + 1) = 0"
    and "trickster_loop 0 data ! (4 * p + 2) = 0"
    and "trickster_loop 0 data ! (4 * p) =
          (if dle (luminance (data ! (4 * p)) (data ! (4 * p + 1)) (data ! (4 * p + 2))) shadowThreshold
           then 0
           else toUint8Clamp (dmul (luminance (data ! (4 * p)) (data ! (4 * p + 1)) (data ! (4 * p + 2)))
                                passionFactor))"
proof -
  have l3: "4 * p + 3 < length data" and l2: "4 * p + 2 < length data"
    and l1: "4 * p + 1 < length data" and l0: "4 * p < length data"
    using assms by simp_all
  have m3: "(4 * p + 3) mod 4 = 3" and m2: "(4 * p + 2) mod 4 = 2"
    and m1: "(4 * p + 1) mod 4 = 1" and m0: "(4 * p) mod 4 = 0"
    by (simp_all only: mod_mult_self4 mod_mult_self1_is_0) simp_all
  show "trickster_loop 0 data ! (4 * p + 3) = data ! (4 * p + 3)"
    using trickster_loop_nth [OF l3, of 0] unfolding diff_zero m3 by simp
  show "trickster_loop 0 data ! (4 * p + 1) = 0"
    using trickster_loop_nth [OF l1, of 0] unfolding diff_zero m1 by simp
  show "trickster_loop 0 data ! (4 * p + 2) = 0"
    using trickster_loop_nth [OF l2, of 0] unfolding diff_zero m2 by simp
  show "trickster_loop 0 data ! (4 * p) =
          (if dle (luminance (data ! (4 * p)) (data ! (4 * p + 1)) (data ! (4 * p + 2))) shadowThreshold
           then 0
           else toUint8Clamp (dmul (luminance (data ! (4 * p)) (data ! (4 * p + 1)) (data ! (4 * p + 2)))
                                passionFactor))"
    using trickster_loop_nth [OF l0, of 0] unfolding diff_zero m0 by simp
qed


lemma applyTricksterEffect_ok:
  assumes "0 < width (canvas s)" and "0 < height (canvas s)"
  shows "applyTricksterEffect P s = (None, on_canvas (putImageData P (trickster_loop 0 (pixels (canvas s)))) s)"
  using assms by (simp add: applyTricksterEffect_def getImageData_def)

lemma pixels_on_canvas_put:
  "pixels (canvas (on_canvas (putImageData P d) s)) = pixels (putImageData P d (canvas s))"
  by (simp add: on_canvas_def)

lemma putImageData_length: "length (pixels (putImageData P d c)) = length d"
  by (simp add: putImageData_def)

lemma putImageData_nth:
  assumes "j < length d"
    and "d ! (4 * (j div 4) + 3) = 255
         \<or> (d ! (4 * (j div 4)) = 0 \<and> d ! (4 * (j div 4) + 1) = 0
            \<and> d ! (4 * (j div 4) + 2) = 0 \<and> d ! (4 * (j div 4) + 3) = 0)"
  shows "pixels (putImageData P d c) ! j = d ! j"
  using assms by (auto simp add: putImageData_def Let_def)

lemma putImageData_pixel:
  assumes "k < 4" and "4 * p + 3 < length d"
    and "d ! (4 * p + 3) = 255
         \<or> (d ! (4 * p) = 0 \<and> d ! (4 * p + 1) = 0 \<and> d ! (4 * p + 2) = 0 \<and> d ! (4 * p + 3) = 0)"
  shows "pixels (putImageData P d c) ! (4 * p + k) = d ! (4 * p + k)"
proof -
  have "(4 * p + k) div 4 = p"
    using assms(1) by simp
  with assms show ?thesis
    by (intro putImageData_nth) simp_all
qed

text \<open>
  C5. The Trickster filter, at every pixel of a canvas that has pixels, with \<open>luma\<close> the
  luma \<open>0.299 R + 0.587 G + 0.114 B\<close> of the pixel as an exact number. In the image data
  that the filter puts back, a pixel with \<open>luma \<le> 55\<close> has R = G = B = 0; any other
  pixel has G = B = 0 and for R the byte that the script computes as \<open>luminance * 1.8\<close>
  in double arithmetic, which is an integer nearest to \<open>min 255 (luma * 1.8)\<close>; alpha is
  unchanged. The luma that the script computes in double arithmetic is within \<open>2 ^ -40\<close>
  of \<open>luma\<close>. An opaque pixel is on the canvas afterwards as it is in the image data. The
  call does not throw.
\<close>

theorem C5_trickster:
  assumes "0 < width (canvas s)" and "0 < height (canvas s)"
    and "length (pixels (canvas s)) = 4 * (width (canvas s) * height (canvas s))"
    and "bytes (pixels (canvas s))"
    and "p < width (canvas s) * height (canvas s)"
  shows "fst (applyTricksterEffect P s) = None \<and>
         (let data = pixels (canvas s); out = trickster_loop 0 data;
              shown = pixels (canvas (snd (applyTricksterEffect P s)));
              r = data ! (4 * p); g = data ! (4 * p + 1); b = data ! (4 * p + 2);
              luma = spec_luma r g b
          in out ! (4 * p + 3) = data ! (4 * p + 3) \<and> out ! (4 * p + 1) = 0 \<and> out ! (4 * p + 2) = 0
             \<and> (luma \<le> 55 \<longrightarrow> out ! (4 * p) = 0)
             \<and> (55 < luma \<longrightarrow>
                   out ! (4 * p) = min 255 (round_half_even (dmul (luminance r g b) c1_8))
                   \<and> \<bar>of_int (out ! (4 * p)) - min 255 (18 / 10 * luma)\<bar> \<le> 1 / 2)
             \<and> \<bar>dval (luminance r g b) - luma\<bar> \<le> 1 / 2 ^ 40
             \<and> (data ! (4 * p + 3) = 255 \<longrightarrow>
                   shown ! (4 * p) = out ! (4 * p) \<and> shown ! (4 * p + 1) = out ! (4 * p + 1)
                   \<and> shown ! (4 * p + 2) = out ! (4 * p + 2)
                   \<and> shown ! (4 * p + 3) = out ! (4 * p + 3)))"
proof -
  define data where "data = pixels (canvas s)"
  define out where "out = trickster_loop 0 data"
  define shown where "shown = pixels (canvas (snd (applyTricksterEffect P s)))"
  define r where "r = data ! (4 * p)"
  define g where "g = data ! (4 * p + 1)"
  define b where "b = data ! (4 * p + 2)"
  have len: "length data = 4 * (width (canvas s) * height (canvas s))"
    using assms(3) by (simp add: data_def)
  have bd: "bytes data"
    using assms(4) by (simp add: data_def)
  have l0: "4 * p < length data" and l1: "4 * p + 1 < length data"
    and l2: "4 * p + 2 < length data" and l3: "4 * p + 3 < length data"
    using len assms(5) by simp_all
  have rgb: "0 \<le> r" "r \<le> 255" "0 \<le> g" "g \<le> 255" "0 \<le> b" "b \<le> 255"
    unfolding r_def g_def b_def
    using bytes_nth [OF bd l0] bytes_nth [OF bd l1] bytes_nth [OF bd l2] by simp_all
  note px = trickster_pixel [OF len assms(5), folded out_def r_def g_def b_def]
  note thr = luma_threshold [OF rgb]
  have f0: "0 \<le> fst (dmul (luminance r g b) c1_8)"
    using luminance_err(3) [OF rgb] by (intro dmul_nonneg) (simp_all add: c1_8_def)
  have red: "toUint8Clamp (dmul (luminance r g b) passionFactor)
      = min 255 (round_half_even (dmul (luminance r g b) c1_8))"
    using f0 by (simp add: toUint8Clamp_nonneg passionFactor_def)
  have a: "out ! (4 * p + 3) = data ! (4 * p + 3)" "out ! (4 * p + 1) = 0" "out ! (4 * p + 2) = 0"
    by (rule px)+
  have c1: "out ! (4 * p) = 0" if "spec_luma r g b \<le> 55"
    using px(4) thr that by simp
  have c2: "out ! (4 * p) = min 255 (round_half_even (dmul (luminance r g b) c1_8))"
    and c3: "\<bar>of_int (out ! (4 * p)) - min 255 (18 / 10 * spec_luma r g b)\<bar> \<le> 1 / 2"
    if "55 < spec_luma r g b"
  proof -
    from that thr have "out ! (4 * p) = toUint8Clamp (dmul (luminance r g b) passionFactor)"
      using px(4) by simp
    then show "out ! (4 * p) = min 255 (round_half_even (dmul (luminance r g b) c1_8))"
      and "\<bar>of_int (out ! (4 * p)) - min 255 (18 / 10 * spec_luma r g b)\<bar> \<le> 1 / 2"
      using red red_pin [OF rgb] by simp_all
  qed
  note pin = luma_pin [OF rgb]
  have ok: "applyTricksterEffect P s = (None, on_canvas (putImageData P out) s)"
    unfolding out_def data_def by (rule applyTricksterEffect_ok [OF assms(1,2)])
  have sh: "shown = pixels (putImageData P out (canvas s))"
    unfolding shown_def ok snd_conv by (rule pixels_on_canvas_put)
  have lo: "4 * p + 3 < length out"
    using l3 by (simp add: out_def trickster_loop_length)
  have cv: "shown ! (4 * p) = out ! (4 * p) \<and> shown ! (4 * p + 1) = out ! (4 * p + 1)
      \<and> shown ! (4 * p + 2) = out ! (4 * p + 2) \<and> shown ! (4 * p + 3) = out ! (4 * p + 3)"
    if "data ! (4 * p + 3) = 255"
  proof -
    from that a(1) have st: "out ! (4 * p + 3) = 255
       \<or> (out ! (4 * p) = 0 \<and> out ! (4 * p + 1) = 0 \<and> out ! (4 * p + 2) = 0 \<and> out ! (4 * p + 3) = 0)"
      by simp
    have k: "(0::nat) < 4" "(1::nat) < 4" "(2::nat) < 4" "(3::nat) < 4"
      by simp_all
    note q = k [THEN putImageData_pixel [OF _ lo st, of _ P "canvas s"], folded sh]
    from q show ?thesis
      by simp
  qed
  have n: "fst (applyTricksterEffect P s) = None"
    by (simp add: ok)
  from n a c1 c2 c3 pin cv show ?thesis
    unfolding Let_def data_def [symmetric] out_def [symmetric] shown_def [symmetric]
      r_def [symmetric] g_def [symmetric] b_def [symmetric]
    by blast
qed

theorem C5_trickster_witness:
  "0 < width (canvas (with_pixels [0, 255, 0, 255, 255, 0, 0, 255, 55, 55, 55, 255, 56, 56, 56, 255] (init_app 4 1)))
   \<and> 0 < height (canvas (with_pixels [0, 255, 0, 255, 255, 0, 0, 255, 55, 55, 55, 255, 56, 56, 56, 255] (init_app 4 1)))
   \<and> length (pixels (canvas (with_pixels [0, 255, 0, 255, 255, 0, 0, 255, 55, 55, 55, 255, 56, 56, 56, 255] (init_app 4 1))))
       = 4 * (width (canvas (with_pixels [0, 255, 0, 255, 255, 0, 0, 255, 55, 55, 55, 255, 56, 56, 56, 255] (init_app 4 1)))
              * height (canvas (with_pixels [0, 255, 0, 255, 255, 0, 0, 255, 55, 55, 55, 255, 56, 56, 56, 255] (init_app 4 1))))
   \<and> bytes (pixels (canvas (with_pixels [0, 255, 0, 255, 255, 0, 0, 255, 55, 55, 55, 255, 56, 56, 56, 255] (init_app 4 1))))
   \<and> 3 < width (canvas (with_pixels [0, 255, 0, 255, 255, 0, 0, 255, 55, 55, 55, 255, 56, 56, 56, 255] (init_app 4 1)))
          * height (canvas (with_pixels [0, 255, 0, 255, 255, 0, 0, 255, 55, 55, 55, 255, 56, 56, 56, 255] (init_app 4 1)))
   \<and> spec_luma 0 255 0 = 149685 / 1000 \<and> spec_luma 255 0 0 = 76245 / 1000
   \<and> spec_luma 55 55 55 = 55 \<and> spec_luma 56 56 56 = 56
   \<and> fst (applyTricksterEffect example_platform
         (with_pixels [0, 255, 0, 255, 255, 0, 0, 255, 55, 55, 55, 255, 56, 56, 56, 255] (init_app 4 1))) = None
   \<and> pixels (canvas (snd (applyTricksterEffect example_platform
         (with_pixels [0, 255, 0, 255, 255, 0, 0, 255, 55, 55, 55, 255, 56, 56, 56, 255] (init_app 4 1)))))
       = [255, 0, 0, 255, 137, 0, 0, 255, 0, 0, 0, 255, 101, 0, 0, 255]"
proof -
  define s0 where "s0 = with_pixels [0, 255, 0, 255, 255, 0, 0, 255, 55, 55, 55, 255, 56, 56, 56, 255] (init_app 4 1)"
  have w: "width (canvas s0) = 4" and h: "height (canvas s0) = 1"
    and d: "pixels (canvas s0) = [0, 255, 0, 255, 255, 0, 0, 255, 55, 55, 55, 255, 56, 56, 56, 255]"
    by (simp_all add: s0_def with_pixels_def on_canvas_def init_app_def init_canvas_def)
  have sl: "spec_luma 0 255 0 = 149685 / 1000" "spec_luma 255 0 0 = 76245 / 1000"
    "spec_luma 55 55 55 = 55" "spec_luma 56 56 56 = 56"
    by (simp_all add: spec_luma_def)
  have rv: "min 255 (round_half_even (dmul (luminance 0 255 0) c1_8)) = 255"
    "min 255 (round_half_even (dmul (luminance 255 0 0) c1_8)) = 137"
    "min 255 (round_half_even (dmul (luminance 56 56 56) c1_8)) = 101"
    by code_simp+
  have h1: "0 < width (canvas s0)" and h2: "0 < height (canvas s0)"
    and h3: "length (pixels (canvas s0)) = 4 * (width (canvas s0) * height (canvas s0))"
    and h4: "bytes (pixels (canvas s0))"
    and p0: "0 < width (canvas s0) * height (canvas s0)"
    and p1: "1 < width (canvas s0) * height (canvas s0)"
    and p2: "2 < width (canvas s0) * height (canvas s0)"
    and p3: "3 < width (canvas s0) * height (canvas s0)"
    by (simp_all add: w h d bytes_def)
  define shown where "shown = pixels (canvas (snd (applyTricksterEffect example_platform s0)))"
  have "length shown = 16"
    by (simp add: shown_def applyTricksterEffect_ok [OF h1 h2] pixels_on_canvas_put
        putImageData_length trickster_loop_length d)
  moreover have "shown ! 0 = 255 \<and> shown ! 1 = 0 \<and> shown ! 2 = 0 \<and> shown ! 3 = 255"
    using C5_trickster [OF h1 h2 h3 h4 p0, of example_platform]
    by (simp add: d sl rv shown_def Let_def numeral_2_eq_2)
  moreover have "shown ! 4 = 137 \<and> shown ! 5 = 0 \<and> shown ! 6 = 0 \<and> shown ! 7 = 255"
    using C5_trickster [OF h1 h2 h3 h4 p1, of example_platform]
    by (simp add: d sl rv shown_def Let_def)
  moreover have "shown ! 8 = 0 \<and> shown ! 9 = 0 \<and> shown ! 10 = 0 \<and> shown ! 11 = 255"
    using C5_trickster [OF h1 h2 h3 h4 p2, of example_platform]
    by (simp add: d sl rv shown_def Let_def)
  moreover have "shown ! 12 = 101 \<and> shown ! 13 = 0 \<and> shown ! 14 = 0 \<and> shown ! 15 = 255"
    using C5_trickster [OF h1 h2 h3 h4 p3, of example_platform]
    by (simp add: d sl rv shown_def Let_def)
  ultimately have "shown = [255, 0, 0, 255, 137, 0, 0, 255, 0, 0, 0, 255, 101, 0, 0, 255]"
    by (intro nth_equalityI) (auto simp: less_Suc_eq numeral_eq_Suc)
  moreover have "fst (applyTricksterEffect example_platform s0) = None"
    using C5_trickster [OF h1 h2 h3 h4 p0, of example_platform] by simp
  ultimately show ?thesis
    using h1 h2 h3 h4 p3 sl unfolding shown_def s0_def by simp
qed

lemma gray_loop_length: "length (gray_loop i data gray) = length gray"
proof (induction i data gray rule: gray_loop.induct)
  case (1 i data gray)
  show ?case
  proof (cases "i < length data")
    case True
    with "1.IH" show ?thesis
      by (subst gray_loop.simps) simp
  next
    case False
    then show ?thesis by (subst gray_loop.simps) simp
  qed
qed

lemma gray_loop_nth:
  "i = 4 * q \<Longrightarrow> p < length gray \<Longrightarrow>
   gray_loop i data gray ! p =
     (if q \<le> p \<and> 4 * p < length data
      then toUint8Clamp (luminance (data ! (4 * p)) (data ! (4 * p + 1)) (data ! (4 * p + 2)))
      else gray ! p)"
proof (induction i data gray arbitrary: q rule: gray_loop.induct)
  case (1 i data gray)
  show ?case
  proof (cases "i < length data")
    case False
    with "1.prems" show ?thesis by (subst gray_loop.simps) simp
  next
    case True
    define v where "v = toUint8Clamp (luminance (data ! i) (data ! (i + 1)) (data ! (i + 2)))"
    define gray' where "gray' = gray[i div 4 := v]"
    have step: "gray_loop i data gray = gray_loop (i + 4) data gray'"
      using True by (subst gray_loop.simps) (simp add: v_def gray'_def)
    have i4: "i + 4 = 4 * (q + 1)" and iq: "i div 4 = q"
      using "1.prems"(1) by simp_all
    have len: "p < length gray'"
      using "1.prems"(2) by (simp add: gray'_def)
    have IH: "gray_loop (i + 4) data gray' ! p =
       (if q + 1 \<le> p \<and> 4 * p < length data
        then toUint8Clamp (luminance (data ! (4 * p)) (data ! (4 * p + 1)) (data ! (4 * p + 2)))
        else gray' ! p)"
      using "1.IH" [OF True i4, folded v_def gray'_def, OF len] .
    have g': "gray' ! p = (if p = q then v else gray ! p)"
      using "1.prems"(2) by (simp add: gray'_def iq nth_list_update)
    show ?thesis
    proof (cases "p = q")
      case True
      with \<open>i < length data\<close> "1.prems"(1) show ?thesis
        unfolding step IH g' by (simp add: v_def)
    next
      case False
      then show ?thesis
        unfolding step IH g' by auto
    qed
  qed
qed

lemma edge_pixel_length: "length (edge_pixel w gray i out) = length out"
  by (simp add: edge_pixel_def Let_def)

lemma edge_pixel_nth:
  assumes "4 * q + k < length out" and "k < 4"
  shows "edge_pixel w gray i out ! (4 * q + k) =
     (if q = i then (if \<bar>kernel_val w gray i\<bar> > threshold then 255 else if k = 3 then 255 else 20)
      else out ! (4 * q + k))"
proof (cases "q = i")
  case True
  from assms(2) consider "k = 0" | "k = 1" | "k = 2" | "k = 3" by linarith
  then show ?thesis
    using assms(1) True
    by cases (simp_all add: edge_pixel_def Let_def nth_list_update mult.commute)
next
  case False
  then have "4 * q + k \<noteq> i * 4" "4 * q + k \<noteq> i * 4 + 1" "4 * q + k \<noteq> i * 4 + 2"
    "4 * q + k \<noteq> i * 4 + 3"
    using assms(2) by presburger+
  with False show ?thesis
    by (simp add: edge_pixel_def Let_def)
qed


lemma anima_x_loop_length: "length (anima_x_loop w h gray y x out) = length out"
proof (induction w h gray y x out rule: anima_x_loop.induct)
  case (1 w h gray y x out)
  show ?case
  proof (cases "x + 1 < w")
    case True
    with "1.IH" show ?thesis
      by (subst anima_x_loop.simps) (simp add: edge_pixel_length)
  next
    case False
    then show ?thesis by (subst anima_x_loop.simps) simp
  qed
qed

lemma anima_x_loop_nth:
  "4 * q + k < length out \<Longrightarrow> k < 4 \<Longrightarrow>
   anima_x_loop w h gray y x out ! (4 * q + k) =
     (if y * w + x \<le> q \<and> q + 1 < y * w + w
      then (if \<bar>kernel_val w gray q\<bar> > threshold then 255 else if k = 3 then 255 else 20)
      else out ! (4 * q + k))"
proof (induction w h gray y x out rule: anima_x_loop.induct)
  case (1 w h gray y x out)
  show ?case
  proof (cases "x + 1 < w")
    case False
    then show ?thesis by (subst anima_x_loop.simps) simp
  next
    case True
    define out' where "out' = edge_pixel w gray (y * w + x) out"
    have step: "anima_x_loop w h gray y x out = anima_x_loop w h gray y (x + 1) out'"
      using True by (subst anima_x_loop.simps) (simp add: out'_def)
    have len: "4 * q + k < length out'"
      using "1.prems"(1) by (simp add: out'_def edge_pixel_length)
    note IH = "1.IH" [OF True, folded out'_def, OF len "1.prems"(2)]
    note o' = edge_pixel_nth [OF "1.prems", of w gray "y * w + x", folded out'_def]
    show ?thesis
    proof (cases "q = y * w + x")
      case True
      with \<open>x + 1 < w\<close> show ?thesis
        unfolding step IH o' by simp
    next
      case False
      then have "(y * w + (x + 1) \<le> q) = (y * w + x \<le> q)"
        by linarith
      with False show ?thesis
        unfolding step IH o' by simp
    qed
  qed
qed

lemma anima_y_loop_length: "length (anima_y_loop w h gray y out) = length out"
proof (induction w h gray y out rule: anima_y_loop.induct)
  case (1 w h gray y out)
  show ?case
  proof (cases "y + 1 < h")
    case True
    with "1.IH" show ?thesis
      by (subst anima_y_loop.simps) (simp add: anima_x_loop_length)
  next
    case False
    then show ?thesis by (subst anima_y_loop.simps) simp
  qed
qed

lemma anima_y_loop_nth:
  "4 * q + k < length out \<Longrightarrow> k < 4 \<Longrightarrow>
   anima_y_loop w h gray y out ! (4 * q + k) =
     (if \<exists>y'. y \<le> y' \<and> y' + 1 < h \<and> y' * w + 1 \<le> q \<and> q + 1 < y' * w + w
      then (if \<bar>kernel_val w gray q\<bar> > threshold then 255 else if k = 3 then 255 else 20)
      else out ! (4 * q + k))"
proof (induction w h gray y out rule: anima_y_loop.induct)
  case (1 w h gray y out)
  show ?case
  proof (cases "y + 1 < h")
    case False
    then have ne: "(\<exists>y'. y \<le> y' \<and> y' + 1 < h \<and> y' * w + 1 \<le> q \<and> q + 1 < y' * w + w) = False"
      by auto
    from False have e: "anima_y_loop w h gray y out = out"
      by (subst anima_y_loop.simps) simp
    show ?thesis
      unfolding e by (simp only: ne if_False)
  next
    case True
    define out' where "out' = anima_x_loop w h gray y 1 out"
    have step: "anima_y_loop w h gray y out = anima_y_loop w h gray (y + 1) out'"
      using True by (subst anima_y_loop.simps) (simp add: out'_def)
    have len: "4 * q + k < length out'"
      using "1.prems"(1) by (simp add: out'_def anima_x_loop_length)
    note IH = "1.IH" [OF True, folded out'_def, OF len "1.prems"(2)]
    note o' = anima_x_loop_nth [OF "1.prems", of w h gray y 1, folded out'_def]
    have split: "(\<exists>y'. y \<le> y' \<and> y' + 1 < h \<and> y' * w + 1 \<le> q \<and> q + 1 < y' * w + w) \<longleftrightarrow>
        (y * w + 1 \<le> q \<and> q + 1 < y * w + w) \<or>
        (\<exists>y'. y + 1 \<le> y' \<and> y' + 1 < h \<and> y' * w + 1 \<le> q \<and> q + 1 < y' * w + w)"
      (is "?L \<longleftrightarrow> ?A \<or> ?B")
    proof
      assume ?L
      then obtain y' where y': "y \<le> y'" "y' + 1 < h" "y' * w + 1 \<le> q" "q + 1 < y' * w + w"
        by blast
      show "?A \<or> ?B"
      proof (cases "y' = y")
        case True
        with y' show ?thesis by simp
      next
        case False
        with y'(1) have "y + 1 \<le> y'" by simp
        with y' show ?thesis by blast
      qed
    next
      assume "?A \<or> ?B"
      then show ?L
      proof
        assume ?A
        with True show ?L by blast
      next
        assume ?B
        then obtain y' where "y + 1 \<le> y'" "y' + 1 < h" "y' * w + 1 \<le> q" "q + 1 < y' * w + w"
          by blast
        then have "y \<le> y' \<and> y' + 1 < h \<and> y' * w + 1 \<le> q \<and> q + 1 < y' * w + w" by simp
        then show ?L by blast
      qed
    qed
    show ?thesis
      unfolding step IH o' split by auto
  qed
qed


lemma idx_bound:
  assumes "x < w" and "y < h"
  shows "y * w + x < w * (h::nat)"
proof -
  have "y * w + x < (y + 1) * w"
    using assms(1) by simp
  also have "\<dots> \<le> h * w"
    using assms(2) by (intro mult_le_mono1) simp
  finally show ?thesis
    by (simp add: mult.commute)
qed

lemma row_unique:
  assumes "y' * w + 1 \<le> y * w + x" and "y * w + x + 1 < y' * w + w" and "x < (w::nat)"
  shows "y' = y"
proof (rule ccontr)
  assume "y' \<noteq> y"
  then consider "y' + 1 \<le> y" | "y + 1 \<le> y'" by linarith
  then show False
  proof cases
    case 1
    then have "(y' + 1) * w \<le> y * w" by (rule mult_le_mono1)
    with assms(2) show False by simp
  next
    case 2
    then have "(y + 1) * w \<le> y' * w" by (rule mult_le_mono1)
    with assms(1,3) show False by simp
  qed
qed

lemma interior_iff:
  assumes "x < (w::nat)"
  shows "(\<exists>y'. 1 \<le> y' \<and> y' + 1 < h \<and> y' * w + 1 \<le> y * w + x \<and> y * w + x + 1 < y' * w + w)
         \<longleftrightarrow> (1 \<le> y \<and> y + 1 < h \<and> 1 \<le> x \<and> x + 1 < w)"
proof
  assume "\<exists>y'. 1 \<le> y' \<and> y' + 1 < h \<and> y' * w + 1 \<le> y * w + x \<and> y * w + x + 1 < y' * w + w"
  then obtain y' where y': "1 \<le> y'" "y' + 1 < h" "y' * w + 1 \<le> y * w + x"
    "y * w + x + 1 < y' * w + w" by blast
  from row_unique [OF y'(3,4) assms] have "y' = y" .
  with y' show "1 \<le> y \<and> y + 1 < h \<and> 1 \<le> x \<and> x + 1 < w" by simp
next
  assume "1 \<le> y \<and> y + 1 < h \<and> 1 \<le> x \<and> x + 1 < w"
  then have "1 \<le> y \<and> y + 1 < h \<and> y * w + 1 \<le> y * w + x \<and> y * w + x + 1 < y * w + w"
    by simp
  then show "\<exists>y'. 1 \<le> y' \<and> y' + 1 < h \<and> y' * w + 1 \<le> y * w + x \<and> y * w + x + 1 < y' * w + w"
    by blast
qed

lemma anima_data_length: "length (anima_data w h data) = w * h * 4"
  by (simp add: anima_data_def Let_def anima_y_loop_length)

lemma anima_data_nth:
  assumes "x < w" and "y < h" and "k < 4"
  shows "anima_data w h data ! (4 * (y * w + x) + k) =
     (if 1 \<le> y \<and> y + 1 < h \<and> 1 \<le> x \<and> x + 1 < w
      then (if \<bar>kernel_val w (gray_loop 0 data (replicate (w * h) 0)) (y * w + x)\<bar> > threshold
            then 255 else if k = 3 then 255 else 20)
      else 0)"
proof -
  have b: "y * w + x < w * h"
    using assms(1,2) by (rule idx_bound)
  then have len: "4 * (y * w + x) + k < length (replicate (w * h * 4) (0::int))"
    using assms(3) by simp
  have z: "replicate (w * h * 4) (0::int) ! (4 * (y * w + x) + k) = 0"
    using len by simp
  show ?thesis
    unfolding anima_data_def Let_def anima_y_loop_nth [OF len assms(3)] interior_iff [OF assms(1)] z
    by simp
qed

lemma gray_at:
  assumes "length (pixels c) = 4 * (width c * height c)" and "x < width c" and "y < height c"
  shows "gray_loop 0 (pixels c) (replicate (width c * height c) 0) ! (y * width c + x) = luma_at c x y"
proof -
  have b: "y * width c + x < width c * height c"
    using assms(2,3) by (rule idx_bound)
  then have "4 * (y * width c + x) < length (pixels c)"
    using assms(1) by simp
  with b show ?thesis
    using gray_loop_nth [of 0 0 "y * width c + x" "replicate (width c * height c) 0" "pixels c"]
    by (simp add: luma_at_def px_at_def)
qed

lemma kernel_at:
  assumes len: "length (pixels c) = 4 * (width c * height c)"
    and "1 \<le> x" and "x + 1 < width c" and "1 \<le> y" and "y + 1 < height c"
  shows "kernel_val (width c) (gray_loop 0 (pixels c) (replicate (width c * height c) 0))
           (y * width c + x) = spec_laplacian c x y"
proof -
  define gray where "gray = gray_loop 0 (pixels c) (replicate (width c * height c) 0)"
  have l: "y * width c + x - 1 = y * width c + (x - 1)"
    using assms(2) by simp
  have r: "y * width c + x + 1 = y * width c + (x + 1)"
    by simp
  have t: "y * width c + x - width c = (y - 1) * width c + x"
    using assms(4) by (simp add: diff_mult_distrib)
  have u: "y * width c + x + width c = (y + 1) * width c + x"
    by simp
  have g0: "gray ! (y * width c + x) = luma_at c x y"
    unfolding gray_def using assms by (intro gray_at) simp_all
  have g1: "gray ! (y * width c + x - 1) = luma_at c (x - 1) y"
    unfolding gray_def l using assms by (intro gray_at) simp_all
  have g2: "gray ! (y * width c + x + 1) = luma_at c (x + 1) y"
    unfolding gray_def r using assms by (intro gray_at) simp_all
  have g3: "gray ! (y * width c + x - width c) = luma_at c x (y - 1)"
    unfolding gray_def t using assms by (intro gray_at) simp_all
  have g4: "gray ! (y * width c + x + width c) = luma_at c x (y + 1)"
    unfolding gray_def u using assms by (intro gray_at) simp_all
  show ?thesis
    unfolding kernel_val_def spec_laplacian_def gray_def [symmetric] g0 g1 g2 g3 g4 ..
qed


lemma applyAnimaEffect_ok:
  assumes "0 < width (canvas s)" and "0 < height (canvas s)"
  shows "applyAnimaEffect P s =
    (None, on_canvas (putImageData P (anima_data (width (canvas s)) (height (canvas s))
                                       (pixels (canvas s)))) s)"
  using assms by (simp add: applyAnimaEffect_def getImageData_def)

lemma width_on_canvas_put [simp]: "width (canvas (on_canvas (putImageData P d) s)) = width (canvas s)"
  by (simp add: on_canvas_def putImageData_def)

lemma height_on_canvas_put [simp]: "height (canvas (on_canvas (putImageData P d) s)) = height (canvas s)"
  by (simp add: on_canvas_def putImageData_def)

lemma anima_rgba:
  assumes "x < width (canvas s)" and "y < height (canvas s)"
  shows "fst (applyAnimaEffect P s) = None"
    and "rgba_at (canvas (snd (applyAnimaEffect P s))) x y =
     (if 1 \<le> y \<and> y + 1 < height (canvas s) \<and> 1 \<le> x \<and> x + 1 < width (canvas s)
      then (if \<bar>kernel_val (width (canvas s))
                   (gray_loop 0 (pixels (canvas s))
                      (replicate (width (canvas s) * height (canvas s)) 0))
                   (y * width (canvas s) + x)\<bar> > threshold
            then [255, 255, 255, 255] else [20, 20, 20, 255])
      else [0, 0, 0, 0])"
proof -
  have pos: "0 < width (canvas s)" "0 < height (canvas s)"
    using assms by simp_all
  show "fst (applyAnimaEffect P s) = None"
    by (simp add: applyAnimaEffect_ok [OF pos])
  have k: "(0::nat) < 4" "(1::nat) < 4" "(2::nat) < 4" "(3::nat) < 4"
    by simp_all
  note n = k [THEN anima_data_nth [OF assms, of _ "pixels (canvas s)"]]
  have "y * width (canvas s) + x < width (canvas s) * height (canvas s)"
    using assms by (rule idx_bound)
  then have len: "4 * (y * width (canvas s) + x) + 3
      < length (anima_data (width (canvas s)) (height (canvas s)) (pixels (canvas s)))"
    by (simp add: anima_data_length)
  have st: "anima_data (width (canvas s)) (height (canvas s)) (pixels (canvas s))
        ! (4 * (y * width (canvas s) + x) + 3) = 255
      \<or> (anima_data (width (canvas s)) (height (canvas s)) (pixels (canvas s))
            ! (4 * (y * width (canvas s) + x)) = 0
         \<and> anima_data (width (canvas s)) (height (canvas s)) (pixels (canvas s))
            ! (4 * (y * width (canvas s) + x) + 1) = 0
         \<and> anima_data (width (canvas s)) (height (canvas s)) (pixels (canvas s))
            ! (4 * (y * width (canvas s) + x) + 2) = 0
         \<and> anima_data (width (canvas s)) (height (canvas s)) (pixels (canvas s))
            ! (4 * (y * width (canvas s) + x) + 3) = 0)"
    using n by (simp split: if_splits)
  note q = k [THEN putImageData_pixel [OF _ len st, of _ P "canvas s"]]
  show "rgba_at (canvas (snd (applyAnimaEffect P s))) x y =
     (if 1 \<le> y \<and> y + 1 < height (canvas s) \<and> 1 \<le> x \<and> x + 1 < width (canvas s)
      then (if \<bar>kernel_val (width (canvas s))
                   (gray_loop 0 (pixels (canvas s))
                      (replicate (width (canvas s) * height (canvas s)) 0))
                   (y * width (canvas s) + x)\<bar> > threshold
            then [255, 255, 255, 255] else [20, 20, 20, 255])
      else [0, 0, 0, 0])"
    unfolding applyAnimaEffect_ok [OF pos] rgba_at_def px_at_def snd_conv
      pixels_on_canvas_put width_on_canvas_put q n
    by simp
qed

lemma uniform_px:
  assumes "uniform_colour c" and "length (pixels c) = 4 * (width c * height c)"
    and "x < width c" and "y < height c" and "k < 3"
  shows "px_at c x y k = pixels c ! k"
proof -
  have "y * width c + x < width c * height c"
    using assms(3,4) by (rule idx_bound)
  then have j: "4 * (y * width c + x) + k < length (pixels c)"
    using assms(2,5) by simp
  have m: "(4 * (y * width c + x) + k) mod 4 = k"
    using assms(5) by (simp only: mod_mult_self4) simp
  from assms(1) j have "(4 * (y * width c + x) + k) mod 4 = 3 \<or>
      pixels c ! (4 * (y * width c + x) + k) = pixels c ! ((4 * (y * width c + x) + k) mod 4)"
    by (simp add: uniform_colour_def list_all_length)
  then show ?thesis
    unfolding m px_at_def using assms(5) by simp
qed

lemma uniform_luma:
  assumes "uniform_colour c" and "length (pixels c) = 4 * (width c * height c)"
    and "x < width c" and "y < height c"
  shows "luma_at c x y = toUint8Clamp (luminance (pixels c ! 0) (pixels c ! 1) (pixels c ! 2))"
  unfolding luma_at_def using uniform_px [OF assms] by simp


text \<open>
  C7, as stated, fails: on a 4 \<times> 3 canvas whose border is white and whose interior, the
  pixels (1, 1) and (2, 1), is uniformly black, the Anima filter turns the interior pixel
  (1, 1) white, not dark grey: the kernel reads the border pixels next to it.
\<close>

theorem C7_anima_counterexample:
  "rgba_at (canvas (with_pixels
     [255, 255, 255, 255, 255, 255, 255, 255, 255, 255, 255, 255, 255, 255, 255, 255,
      255, 255, 255, 255, 0, 0, 0, 255, 0, 0, 0, 255, 255, 255, 255, 255,
      255, 255, 255, 255, 255, 255, 255, 255, 255, 255, 255, 255, 255, 255, 255, 255] (init_app 4 3))) 1 1 = [0, 0, 0, 255]
   \<and> rgba_at (canvas (with_pixels
     [255, 255, 255, 255, 255, 255, 255, 255, 255, 255, 255, 255, 255, 255, 255, 255,
      255, 255, 255, 255, 0, 0, 0, 255, 0, 0, 0, 255, 255, 255, 255, 255,
      255, 255, 255, 255, 255, 255, 255, 255, 255, 255, 255, 255, 255, 255, 255, 255] (init_app 4 3))) 2 1 = [0, 0, 0, 255]
   \<and> rgba_at (canvas (snd (applyAnimaEffect example_platform (with_pixels
     [255, 255, 255, 255, 255, 255, 255, 255, 255, 255, 255, 255, 255, 255, 255, 255,
      255, 255, 255, 255, 0, 0, 0, 255, 0, 0, 0, 255, 255, 255, 255, 255,
      255, 255, 255, 255, 255, 255, 255, 255, 255, 255, 255, 255, 255, 255, 255, 255] (init_app 4 3))))) 1 1 = [255, 255, 255, 255]"
  by code_simp

lemma luma_at_pin:
  assumes "length (pixels c) = 4 * (width c * height c)" and "bytes (pixels c)"
    and "x < width c" and "y < height c"
  shows "0 \<le> luma_at c x y \<and> luma_at c x y \<le> 255
     \<and> \<bar>of_int (luma_at c x y) - spec_luma (px_at c x y 0) (px_at c x y 1) (px_at c x y 2)\<bar> \<le> 1 / 2"
proof -
  have "y * width c + x < width c * height c"
    using assms(3,4) by (rule idx_bound)
  then have l: "4 * (y * width c + x) + 0 < length (pixels c)"
    "4 * (y * width c + x) + 1 < length (pixels c)"
    "4 * (y * width c + x) + 2 < length (pixels c)"
    using assms(1) by simp_all
  note b = l [THEN bytes_nth [OF assms(2)], folded px_at_def]
  from b have rgb: "0 \<le> px_at c x y 0" "px_at c x y 0 \<le> 255" "0 \<le> px_at c x y 1"
    "px_at c x y 1 \<le> 255" "0 \<le> px_at c x y 2" "px_at c x y 2 \<le> 255"
    by simp_all
  from gray_pin [OF rgb] toUint8Clamp_range show ?thesis
    unfolding luma_at_def by simp
qed

text \<open>
  C7, amended. The Anima filter, at every pixel that is not on the one-pixel border. The
  luma grid holds for each pixel the luma \<open>0.299 R + 0.587 G + 0.114 B\<close> rounded to a
  byte: an integer from 0 to 255 at most one half away from the exact luma (the script
  computes it in double arithmetic and the typed array rounds it). The pixel becomes
  opaque white when the absolute value of \<open>4 * center - left - right - top - bottom\<close> on
  the luma grid exceeds 20, and opaque dark grey (20, 20, 20, 255) otherwise. Hence a
  non-border pixel whose four neighbours have its luma becomes (20, 20, 20, 255), and so
  does every non-border pixel of a buffer that has one colour throughout, the border
  included.
\<close>

theorem C7_anima_interior:
  assumes "length (pixels (canvas s)) = 4 * (width (canvas s) * height (canvas s))"
    and "bytes (pixels (canvas s))"
    and "1 \<le> x" and "x + 1 < width (canvas s)" and "1 \<le> y" and "y + 1 < height (canvas s)"
  shows "fst (applyAnimaEffect P s) = None
    \<and> rgba_at (canvas (snd (applyAnimaEffect P s))) x y =
        (if \<bar>spec_laplacian (canvas s) x y\<bar> > 20 then [255, 255, 255, 255] else [20, 20, 20, 255])
    \<and> (\<forall>x' y'. x' < width (canvas s) \<and> y' < height (canvas s) \<longrightarrow>
          0 \<le> luma_at (canvas s) x' y' \<and> luma_at (canvas s) x' y' \<le> 255
          \<and> \<bar>of_int (luma_at (canvas s) x' y')
               - spec_luma (px_at (canvas s) x' y' 0) (px_at (canvas s) x' y' 1)
                   (px_at (canvas s) x' y' 2)\<bar> \<le> 1 / 2)
    \<and> (luma_at (canvas s) (x - 1) y = luma_at (canvas s) x y
         \<and> luma_at (canvas s) (x + 1) y = luma_at (canvas s) x y
         \<and> luma_at (canvas s) x (y - 1) = luma_at (canvas s) x y
         \<and> luma_at (canvas s) x (y + 1) = luma_at (canvas s) x y
         \<longrightarrow> rgba_at (canvas (snd (applyAnimaEffect P s))) x y = [20, 20, 20, 255])
    \<and> (uniform_colour (canvas s)
         \<longrightarrow> rgba_at (canvas (snd (applyAnimaEffect P s))) x y = [20, 20, 20, 255])"
proof -
  have xy: "x < width (canvas s)" "y < height (canvas s)"
    using assms by simp_all
  note k = kernel_at [OF assms(1,3-6)]
  have r: "rgba_at (canvas (snd (applyAnimaEffect P s))) x y =
      (if \<bar>spec_laplacian (canvas s) x y\<bar> > 20 then [255, 255, 255, 255] else [20, 20, 20, 255])"
    unfolding anima_rgba(2) [OF xy] k threshold_def using assms by simp
  have pin: "0 \<le> luma_at (canvas s) x' y' \<and> luma_at (canvas s) x' y' \<le> 255
          \<and> \<bar>of_int (luma_at (canvas s) x' y')
               - spec_luma (px_at (canvas s) x' y' 0) (px_at (canvas s) x' y' 1)
                   (px_at (canvas s) x' y' 2)\<bar> \<le> 1 / 2"
    if "x' < width (canvas s) \<and> y' < height (canvas s)" for x' y'
    using that by (intro luma_at_pin [OF assms(1,2)]) simp_all
  have loc: "rgba_at (canvas (snd (applyAnimaEffect P s))) x y = [20, 20, 20, 255]"
    if "luma_at (canvas s) (x - 1) y = luma_at (canvas s) x y"
      and "luma_at (canvas s) (x + 1) y = luma_at (canvas s) x y"
      and "luma_at (canvas s) x (y - 1) = luma_at (canvas s) x y"
      and "luma_at (canvas s) x (y + 1) = luma_at (canvas s) x y"
  proof -
    from that have "spec_laplacian (canvas s) x y = 0"
      by (simp add: spec_laplacian_def)
    then show ?thesis
      unfolding r by simp
  qed
  have uni: "rgba_at (canvas (snd (applyAnimaEffect P s))) x y = [20, 20, 20, 255]"
    if u: "uniform_colour (canvas s)"
  proof (rule loc)
    note ul = uniform_luma [OF u assms(1)]
    show "luma_at (canvas s) (x - 1) y = luma_at (canvas s) x y"
      using assms by (simp add: ul)
    show "luma_at (canvas s) (x + 1) y = luma_at (canvas s) x y"
      using assms by (simp add: ul)
    show "luma_at (canvas s) x (y - 1) = luma_at (canvas s) x y"
      using assms by (simp add: ul)
    show "luma_at (canvas s) x (y + 1) = luma_at (canvas s) x y"
      using assms by (simp add: ul)
  qed
  from anima_rgba(1) [OF xy] r pin loc uni show ?thesis
    by blast
qed

theorem C7_anima_interior_witness:
  "length (pixels (canvas (with_pixels
     [10, 20, 30, 255, 0, 102, 0, 255, 0, 0, 0, 255, 1, 2, 3, 255,
      0, 102, 0, 255, 200, 0, 0, 255, 0, 102, 0, 255, 255, 255, 255, 255,
      9, 9, 9, 255, 0, 102, 0, 255, 0, 102, 0, 255, 7, 7, 7, 255] (init_app 4 3)))) = 4 * (width (canvas (with_pixels
     [10, 20, 30, 255, 0, 102, 0, 255, 0, 0, 0, 255, 1, 2, 3, 255,
      0, 102, 0, 255, 200, 0, 0, 255, 0, 102, 0, 255, 255, 255, 255, 255,
      9, 9, 9, 255, 0, 102, 0, 255, 0, 102, 0, 255, 7, 7, 7, 255] (init_app 4 3))) * height (canvas (with_pixels
     [10, 20, 30, 255, 0, 102, 0, 255, 0, 0, 0, 255, 1, 2, 3, 255,
      0, 102, 0, 255, 200, 0, 0, 255, 0, 102, 0, 255, 255, 255, 255, 255,
      9, 9, 9, 255, 0, 102, 0, 255, 0, 102, 0, 255, 7, 7, 7, 255] (init_app 4 3))))
   \<and> bytes (pixels (canvas (with_pixels
     [10, 20, 30, 255, 0, 102, 0, 255, 0, 0, 0, 255, 1, 2, 3, 255,
      0, 102, 0, 255, 200, 0, 0, 255, 0, 102, 0, 255, 255, 255, 255, 255,
      9, 9, 9, 255, 0, 102, 0, 255, 0, 102, 0, 255, 7, 7, 7, 255] (init_app 4 3))))
   \<and> (1::nat) \<le> 1 \<and> 1 + 1 < width (canvas (with_pixels
     [10, 20, 30, 255, 0, 102, 0, 255, 0, 0, 0, 255, 1, 2, 3, 255,
      0, 102, 0, 255, 200, 0, 0, 255, 0, 102, 0, 255, 255, 255, 255, 255,
      9, 9, 9, 255, 0, 102, 0, 255, 0, 102, 0, 255, 7, 7, 7, 255] (init_app 4 3))) \<and> 1 + 1 < height (canvas (with_pixels
     [10, 20, 30, 255, 0, 102, 0, 255, 0, 0, 0, 255, 1, 2, 3, 255,
      0, 102, 0, 255, 200, 0, 0, 255, 0, 102, 0, 255, 255, 255, 255, 255,
      9, 9, 9, 255, 0, 102, 0, 255, 0, 102, 0, 255, 7, 7, 7, 255] (init_app 4 3)))
   \<and> (1::nat) \<le> 2 \<and> 2 + 1 < width (canvas (with_pixels
     [10, 20, 30, 255, 0, 102, 0, 255, 0, 0, 0, 255, 1, 2, 3, 255,
      0, 102, 0, 255, 200, 0, 0, 255, 0, 102, 0, 255, 255, 255, 255, 255,
      9, 9, 9, 255, 0, 102, 0, 255, 0, 102, 0, 255, 7, 7, 7, 255] (init_app 4 3)))
   \<and> rgba_at (canvas (with_pixels
     [10, 20, 30, 255, 0, 102, 0, 255, 0, 0, 0, 255, 1, 2, 3, 255,
      0, 102, 0, 255, 200, 0, 0, 255, 0, 102, 0, 255, 255, 255, 255, 255,
      9, 9, 9, 255, 0, 102, 0, 255, 0, 102, 0, 255, 7, 7, 7, 255] (init_app 4 3))) 1 1 = [200, 0, 0, 255]
   \<and> rgba_at (canvas (with_pixels
     [10, 20, 30, 255, 0, 102, 0, 255, 0, 0, 0, 255, 1, 2, 3, 255,
      0, 102, 0, 255, 200, 0, 0, 255, 0, 102, 0, 255, 255, 255, 255, 255,
      9, 9, 9, 255, 0, 102, 0, 255, 0, 102, 0, 255, 7, 7, 7, 255] (init_app 4 3))) 2 1 = [0, 102, 0, 255]
   \<and> spec_luma 200 0 0 = 598 / 10 \<and> spec_luma 0 102 0 = 59874 / 1000
   \<and> luma_at (canvas (with_pixels
     [10, 20, 30, 255, 0, 102, 0, 255, 0, 0, 0, 255, 1, 2, 3, 255,
      0, 102, 0, 255, 200, 0, 0, 255, 0, 102, 0, 255, 255, 255, 255, 255,
      9, 9, 9, 255, 0, 102, 0, 255, 0, 102, 0, 255, 7, 7, 7, 255] (init_app 4 3))) 1 1 = 60 \<and> luma_at (canvas (with_pixels
     [10, 20, 30, 255, 0, 102, 0, 255, 0, 0, 0, 255, 1, 2, 3, 255,
      0, 102, 0, 255, 200, 0, 0, 255, 0, 102, 0, 255, 255, 255, 255, 255,
      9, 9, 9, 255, 0, 102, 0, 255, 0, 102, 0, 255, 7, 7, 7, 255] (init_app 4 3))) 2 1 = 60
   \<and> \<bar>of_int (luma_at (canvas (with_pixels
     [10, 20, 30, 255, 0, 102, 0, 255, 0, 0, 0, 255, 1, 2, 3, 255,
      0, 102, 0, 255, 200, 0, 0, 255, 0, 102, 0, 255, 255, 255, 255, 255,
      9, 9, 9, 255, 0, 102, 0, 255, 0, 102, 0, 255, 7, 7, 7, 255] (init_app 4 3))) 1 1) - spec_luma 200 0 0\<bar> \<le> 1 / 2
   \<and> \<bar>of_int (luma_at (canvas (with_pixels
     [10, 20, 30, 255, 0, 102, 0, 255, 0, 0, 0, 255, 1, 2, 3, 255,
      0, 102, 0, 255, 200, 0, 0, 255, 0, 102, 0, 255, 255, 255, 255, 255,
      9, 9, 9, 255, 0, 102, 0, 255, 0, 102, 0, 255, 7, 7, 7, 255] (init_app 4 3))) 2 1) - spec_luma 0 102 0\<bar> \<le> 1 / 2
   \<and> spec_laplacian (canvas (with_pixels
     [10, 20, 30, 255, 0, 102, 0, 255, 0, 0, 0, 255, 1, 2, 3, 255,
      0, 102, 0, 255, 200, 0, 0, 255, 0, 102, 0, 255, 255, 255, 255, 255,
      9, 9, 9, 255, 0, 102, 0, 255, 0, 102, 0, 255, 7, 7, 7, 255] (init_app 4 3))) 1 1 = 0
   \<and> spec_laplacian (canvas (with_pixels
     [10, 20, 30, 255, 0, 102, 0, 255, 0, 0, 0, 255, 1, 2, 3, 255,
      0, 102, 0, 255, 200, 0, 0, 255, 0, 102, 0, 255, 255, 255, 255, 255,
      9, 9, 9, 255, 0, 102, 0, 255, 0, 102, 0, 255, 7, 7, 7, 255] (init_app 4 3))) 2 1 = - 135
   \<and> fst (applyAnimaEffect example_platform (with_pixels
     [10, 20, 30, 255, 0, 102, 0, 255, 0, 0, 0, 255, 1, 2, 3, 255,
      0, 102, 0, 255, 200, 0, 0, 255, 0, 102, 0, 255, 255, 255, 255, 255,
      9, 9, 9, 255, 0, 102, 0, 255, 0, 102, 0, 255, 7, 7, 7, 255] (init_app 4 3))) = None
   \<and> rgba_at (canvas (snd (applyAnimaEffect example_platform (with_pixels
     [10, 20, 30, 255, 0, 102, 0, 255, 0, 0, 0, 255, 1, 2, 3, 255,
      0, 102, 0, 255, 200, 0, 0, 255, 0, 102, 0, 255, 255, 255, 255, 255,
      9, 9, 9, 255, 0, 102, 0, 255, 0, 102, 0, 255, 7, 7, 7, 255] (init_app 4 3))))) 1 1 = [20, 20, 20, 255]
   \<and> rgba_at (canvas (snd (applyAnimaEffect example_platform (with_pixels
     [10, 20, 30, 255, 0, 102, 0, 255, 0, 0, 0, 255, 1, 2, 3, 255,
      0, 102, 0, 255, 200, 0, 0, 255, 0, 102, 0, 255, 255, 255, 255, 255,
      9, 9, 9, 255, 0, 102, 0, 255, 0, 102, 0, 255, 7, 7, 7, 255] (init_app 4 3))))) 2 1 = [255, 255, 255, 255]"
proof -
  define s0 where "s0 = with_pixels
     [10, 20, 30, 255, 0, 102, 0, 255, 0, 0, 0, 255, 1, 2, 3, 255,
      0, 102, 0, 255, 200, 0, 0, 255, 0, 102, 0, 255, 255, 255, 255, 255,
      9, 9, 9, 255, 0, 102, 0, 255, 0, 102, 0, 255, 7, 7, 7, 255] (init_app 4 3)"
  have h1: "length (pixels (canvas s0)) = 4 * (width (canvas s0) * height (canvas s0))"
    and h2: "bytes (pixels (canvas s0))"
    and x1: "(1::nat) \<le> 1" and x2: "1 + 1 < width (canvas s0)" and y2: "1 + 1 < height (canvas s0)"
    and x3: "(1::nat) \<le> 2" and x4: "2 + 1 < width (canvas s0)"
    by (simp_all add: s0_def with_pixels_def on_canvas_def init_app_def init_canvas_def bytes_def)
  have px: "rgba_at (canvas s0) 1 1 = [200, 0, 0, 255]" "rgba_at (canvas s0) 2 1 = [0, 102, 0, 255]"
    unfolding s0_def by code_simp+
  have sl: "spec_luma 200 0 0 = 598 / 10" "spec_luma 0 102 0 = 59874 / 1000"
    by (simp_all add: spec_luma_def)
  have lu: "luma_at (canvas s0) 1 1 = 60" "luma_at (canvas s0) 2 1 = 60"
    unfolding s0_def by code_simp+
  have la: "spec_laplacian (canvas s0) 1 1 = 0" "spec_laplacian (canvas s0) 2 1 = - 135"
    unfolding s0_def by code_simp+
  have pc: "px_at (canvas s0) 1 1 0 = 200" "px_at (canvas s0) 1 1 1 = 0" "px_at (canvas s0) 1 1 2 = 0"
    "px_at (canvas s0) 2 1 0 = 0" "px_at (canvas s0) 2 1 1 = 102" "px_at (canvas s0) 2 1 2 = 0"
    using px by (simp_all add: rgba_at_def)
  have w: "width (canvas s0) = 4" "height (canvas s0) = 3"
    by (simp_all add: s0_def with_pixels_def on_canvas_def init_app_def init_canvas_def)
  note t1 = C7_anima_interior [OF h1 h2 x1 x2 x1 y2, of example_platform]
  note t2 = C7_anima_interior [OF h1 h2 x3 x4 x1 y2, of example_platform]
  have pin: "\<bar>of_int (luma_at (canvas s0) x' y')
               - spec_luma (px_at (canvas s0) x' y' 0) (px_at (canvas s0) x' y' 1)
                   (px_at (canvas s0) x' y' 2)\<bar> \<le> 1 / 2"
    if "x' < width (canvas s0)" and "y' < height (canvas s0)" for x' y'
    using t1 that by blast
  have a: "(1::nat) < width (canvas s0)" "(1::nat) < height (canvas s0)" "(2::nat) < width (canvas s0)"
    by (simp_all add: w)
  note p1 = pin [OF a(1) a(2), unfolded pc]
  note p2 = pin [OF a(3) a(2), unfolded pc]
  from t1 la have r1: "fst (applyAnimaEffect example_platform s0) = None"
    and r2: "rgba_at (canvas (snd (applyAnimaEffect example_platform s0))) 1 1 = [20, 20, 20, 255]"
    by simp_all
  from t2 la have r3: "rgba_at (canvas (snd (applyAnimaEffect example_platform s0))) 2 1 = [255, 255, 255, 255]"
    by simp
  from h1 h2 x1 x2 y2 x3 x4 px sl lu p1 p2 la r1 r2 r3 show ?thesis
    unfolding s0_def by blast
qed

text \<open>
  C8, as stated, fails: on the same 4 \<times> 3 canvas the border pixel (0, 0) is opaque white
  before the Anima filter and transparent black after it.
\<close>

theorem C8_anima_border_counterexample:
  "rgba_at (canvas (with_pixels
     [255, 255, 255, 255, 255, 255, 255, 255, 255, 255, 255, 255, 255, 255, 255, 255,
      255, 255, 255, 255, 0, 0, 0, 255, 0, 0, 0, 255, 255, 255, 255, 255,
      255, 255, 255, 255, 255, 255, 255, 255, 255, 255, 255, 255, 255, 255, 255, 255] (init_app 4 3))) 0 0 = [255, 255, 255, 255]
   \<and> rgba_at (canvas (snd (applyAnimaEffect example_platform (with_pixels
     [255, 255, 255, 255, 255, 255, 255, 255, 255, 255, 255, 255, 255, 255, 255, 255,
      255, 255, 255, 255, 0, 0, 0, 255, 0, 0, 0, 255, 255, 255, 255, 255,
      255, 255, 255, 255, 255, 255, 255, 255, 255, 255, 255, 255, 255, 255, 255, 255] (init_app 4 3))))) 0 0 = [0, 0, 0, 0]"
  by code_simp

text \<open>
  C8, amended. After the Anima filter every pixel of the one-pixel border is transparent
  black, (0, 0, 0, 0): the filter writes its result into a fresh image, sets the pixels
  inside the border only, and puts the whole image back onto the canvas.
\<close>

theorem C8_anima_border:
  assumes "x < width (canvas s)" and "y < height (canvas s)"
    and "x = 0 \<or> x + 1 = width (canvas s) \<or> y = 0 \<or> y + 1 = height (canvas s)"
  shows "fst (applyAnimaEffect P s) = None
    \<and> rgba_at (canvas (snd (applyAnimaEffect P s))) x y = [0, 0, 0, 0]"
proof -
  from assms(3) have "\<not> (1 \<le> y \<and> y + 1 < height (canvas s) \<and> 1 \<le> x \<and> x + 1 < width (canvas s))"
    by auto
  with anima_rgba [OF assms(1,2)] show ?thesis
    by simp
qed

theorem C8_anima_border_witness:
  "(3::nat) < width (canvas (with_pixels
     [255, 255, 255, 255, 255, 255, 255, 255, 255, 255, 255, 255, 255, 255, 255, 255,
      255, 255, 255, 255, 0, 0, 0, 255, 0, 0, 0, 255, 255, 255, 255, 255,
      255, 255, 255, 255, 255, 255, 255, 255, 255, 255, 255, 255, 255, 255, 255, 255] (init_app 4 3))) \<and> (1::nat) < height (canvas (with_pixels
     [255, 255, 255, 255, 255, 255, 255, 255, 255, 255, 255, 255, 255, 255, 255, 255,
      255, 255, 255, 255, 0, 0, 0, 255, 0, 0, 0, 255, 255, 255, 255, 255,
      255, 255, 255, 255, 255, 255, 255, 255, 255, 255, 255, 255, 255, 255, 255, 255] (init_app 4 3)))
   \<and> ((3::nat) = 0 \<or> 3 + 1 = width (canvas (with_pixels
     [255, 255, 255, 255, 255, 255, 255, 255, 255, 255, 255, 255, 255, 255, 255, 255,
      255, 255, 255, 255, 0, 0, 0, 255, 0, 0, 0, 255, 255, 255, 255, 255,
      255, 255, 255, 255, 255, 255, 255, 255, 255, 255, 255, 255, 255, 255, 255, 255] (init_app 4 3))) \<or> (1::nat) = 0 \<or> 1 + 1 = height (canvas (with_pixels
     [255, 255, 255, 255, 255, 255, 255, 255, 255, 255, 255, 255, 255, 255, 255, 255,
      255, 255, 255, 255, 0, 0, 0, 255, 0, 0, 0, 255, 255, 255, 255, 255,
      255, 255, 255, 255, 255, 255, 255, 255, 255, 255, 255, 255, 255, 255, 255, 255] (init_app 4 3))))
   \<and> rgba_at (canvas (with_pixels
     [255, 255, 255, 255, 255, 255, 255, 255, 255, 255, 255, 255, 255, 255, 255, 255,
      255, 255, 255, 255, 0, 0, 0, 255, 0, 0, 0, 255, 255, 255, 255, 255,
      255, 255, 255, 255, 255, 255, 255, 255, 255, 255, 255, 255, 255, 255, 255, 255] (init_app 4 3))) 3 1 = [255, 255, 255, 255]
   \<and> fst (applyAnimaEffect example_platform (with_pixels
     [255, 255, 255, 255, 255, 255, 255, 255, 255, 255, 255, 255, 255, 255, 255, 255,
      255, 255, 255, 255, 0, 0, 0, 255, 0, 0, 0, 255, 255, 255, 255, 255,
      255, 255, 255, 255, 255, 255, 255, 255, 255, 255, 255, 255, 255, 255, 255, 255] (init_app 4 3))) = None
   \<and> rgba_at (canvas (snd (applyAnimaEffect example_platform (with_pixels
     [255, 255, 255, 255, 255, 255, 255, 255, 255, 255, 255, 255, 255, 255, 255, 255,
      255, 255, 255, 255, 0, 0, 0, 255, 0, 0, 0, 255, 255, 255, 255, 255,
      255, 255, 255, 255, 255, 255, 255, 255, 255, 255, 255, 255, 255, 255, 255, 255] (init_app 4 3))))) 3 1 = [0, 0, 0, 0]"
proof -
  have h1: "(3::nat) < width (canvas (with_pixels
     [255, 255, 255, 255, 255, 255, 255, 255, 255, 255, 255, 255, 255, 255, 255, 255,
      255, 255, 255, 255, 0, 0, 0, 255, 0, 0, 0, 255, 255, 255, 255, 255,
      255, 255, 255, 255, 255, 255, 255, 255, 255, 255, 255, 255, 255, 255, 255, 255] (init_app 4 3)))" and h2: "(1::nat) < height (canvas (with_pixels
     [255, 255, 255, 255, 255, 255, 255, 255, 255, 255, 255, 255, 255, 255, 255, 255,
      255, 255, 255, 255, 0, 0, 0, 255, 0, 0, 0, 255, 255, 255, 255, 255,
      255, 255, 255, 255, 255, 255, 255, 255, 255, 255, 255, 255, 255, 255, 255, 255] (init_app 4 3)))"
    and h3: "(3::nat) = 0 \<or> 3 + 1 = width (canvas (with_pixels
     [255, 255, 255, 255, 255, 255, 255, 255, 255, 255, 255, 255, 255, 255, 255, 255,
      255, 255, 255, 255, 0, 0, 0, 255, 0, 0, 0, 255, 255, 255, 255, 255,
      255, 255, 255, 255, 255, 255, 255, 255, 255, 255, 255, 255, 255, 255, 255, 255] (init_app 4 3))) \<or> (1::nat) = 0 \<or> 1 + 1 = height (canvas (with_pixels
     [255, 255, 255, 255, 255, 255, 255, 255, 255, 255, 255, 255, 255, 255, 255, 255,
      255, 255, 255, 255, 0, 0, 0, 255, 0, 0, 0, 255, 255, 255, 255, 255,
      255, 255, 255, 255, 255, 255, 255, 255, 255, 255, 255, 255, 255, 255, 255, 255] (init_app 4 3)))"
    by (simp_all add: with_pixels_def on_canvas_def init_app_def init_canvas_def)
  have b: "rgba_at (canvas (with_pixels
     [255, 255, 255, 255, 255, 255, 255, 255, 255, 255, 255, 255, 255, 255, 255, 255,
      255, 255, 255, 255, 0, 0, 0, 255, 0, 0, 0, 255, 255, 255, 255, 255,
      255, 255, 255, 255, 255, 255, 255, 255, 255, 255, 255, 255, 255, 255, 255, 255] (init_app 4 3))) 3 1 = [255, 255, 255, 255]"
    by code_simp
  from C8_anima_border [OF h1 h2 h3] h1 h2 h3 b show ?thesis
    by simp
qed

lemma bytes_update: "bytes xs \<Longrightarrow> 0 \<le> v \<Longrightarrow> v \<le> 255 \<Longrightarrow> bytes (xs[i := v])"
  unfolding bytes_def list_all_iff using set_update_subset_insert [of xs i v] by auto

lemma bytes_replicate_0: "bytes (replicate n 0)"
  by (simp add: bytes_def list_all_iff)

lemma persona_loop_bytes: "bytes data \<Longrightarrow> bytes (persona_loop i data)"
proof (induction i data rule: persona_loop.induct)
  case (1 i data)
  show ?case
  proof (cases "i < length data")
    case True
    with "1.IH" "1.prems" show ?thesis
      by (subst persona_loop.simps) (simp add: Let_def bytes_update clamp8_range)
  next
    case False
    with "1.prems" show ?thesis by (subst persona_loop.simps) simp
  qed
qed

lemma trickster_loop_bytes: "bytes data \<Longrightarrow> bytes (trickster_loop i data)"
proof (induction i data rule: trickster_loop.induct)
  case (1 i data)
  show ?case
  proof (cases "i < length data")
    case True
    with "1.IH" "1.prems" show ?thesis
      by (subst trickster_loop.simps) (simp add: Let_def bytes_update toUint8Clamp_range)
  next
    case False
    with "1.prems" show ?thesis by (subst trickster_loop.simps) simp
  qed
qed

lemma edge_pixel_bytes: "bytes out \<Longrightarrow> bytes (edge_pixel w gray i out)"
  by (simp add: edge_pixel_def Let_def bytes_update)

lemma anima_x_loop_bytes: "bytes out \<Longrightarrow> bytes (anima_x_loop w h gray y x out)"
proof (induction w h gray y x out rule: anima_x_loop.induct)
  case (1 w h gray y x out)
  show ?case
  proof (cases "x + 1 < w")
    case True
    with "1.IH" "1.prems" show ?thesis
      by (subst anima_x_loop.simps) (simp add: edge_pixel_bytes)
  next
    case False
    with "1.prems" show ?thesis by (subst anima_x_loop.simps) simp
  qed
qed

lemma anima_y_loop_bytes: "bytes out \<Longrightarrow> bytes (anima_y_loop w h gray y out)"
proof (induction w h gray y out rule: anima_y_loop.induct)
  case (1 w h gray y out)
  show ?case
  proof (cases "y + 1 < h")
    case True
    with "1.IH" "1.prems" show ?thesis
      by (subst anima_y_loop.simps) (simp add: anima_x_loop_bytes)
  next
    case False
    with "1.prems" show ?thesis by (subst anima_y_loop.simps) simp
  qed
qed

lemma anima_data_bytes: "bytes (anima_data w h data)"
  by (simp add: anima_data_def Let_def anima_y_loop_bytes bytes_replicate_0)

lemma putImageData_inv:
  "width c = w \<Longrightarrow> height c = h \<Longrightarrow> length d = 4 * (w * h) \<Longrightarrow> bytes d \<Longrightarrow>
   canvas_inv w h (putImageData P d c)"
  by (auto simp add: canvas_inv_def putImageData_def bytes_def list_all_length Let_def clamp8_range)

lemma fill_gradient_inv:
  "platform_ok P \<Longrightarrow> canvas_inv w h c \<Longrightarrow> canvas_inv w h (fill_gradient P g c)"
  by (simp add: platform_ok_def canvas_inv_def fill_gradient_def Let_def)

lemma drawImage_canvas_inv:
  assumes "platform_ok P" and "canvas_inv w h c" and "0 < w" and "0 < h"
  shows "fst (drawImage_canvas P args c) = None \<and> canvas_inv w h (snd (drawImage_canvas P args c))"
  using assms by (simp add: platform_ok_def canvas_inv_def drawImage_canvas_def)


lemma and_then_ok:
  assumes "fst r = None" and "Q (snd r)"
    and "\<And>s. Q s \<Longrightarrow> fst (f s) = None \<and> Q' (snd (f s))"
  shows "fst (and_then r f) = None \<and> Q' (snd (and_then r f))"
  using assms by (cases r) (simp add: and_then_def)

lemma canvas_next_random [simp]: "canvas (snd (next_random P s)) = canvas s"
  by (simp add: next_random_def)

lemma set_composite_inv:
  "canvas_inv w h (canvas s) \<Longrightarrow> canvas_inv w h (canvas (set_composite op s))"
  by (simp add: set_composite_def on_canvas_def canvas_inv_def)

lemma draw_self_inv:
  assumes "platform_ok P" and "canvas_inv w h (canvas s)" and "0 < w" and "0 < h"
  shows "fst (draw_self P args s) = None \<and> canvas_inv w h (canvas (snd (draw_self P args s)))"
  using drawImage_canvas_inv [OF assms, of args]
  by (simp add: draw_self_def split_beta)

lemma slice_glitch_inv:
  assumes "platform_ok P" and "canvas_inv w h (canvas s)" and "0 < w" and "0 < h"
  shows "fst (slice_glitch P s) = None \<and> canvas_inv w h (canvas (snd (slice_glitch P s)))"
proof -
  define s3 where "s3 = snd (next_random P (snd (next_random P (snd (next_random P s)))))"
  have "canvas_inv w h (canvas s3)"
    using assms(2) by (simp add: s3_def)
  from drawImage_canvas_inv [OF assms(1) this assms(3,4)] show ?thesis
    by (simp add: slice_glitch_def split_beta Let_def s3_def)
qed

lemma slice_glitches_inv:
  assumes "platform_ok P" and "0 < w" and "0 < h"
  shows "canvas_inv w h (canvas s) \<Longrightarrow>
    fst (slice_glitches P n s) = None \<and> canvas_inv w h (canvas (snd (slice_glitches P n s)))"
proof (induction n arbitrary: s)
  case 0
  then show ?case by simp
next
  case (Suc n)
  from slice_glitch_inv [OF assms(1) Suc.prems assms(2,3)]
  show ?case
    unfolding slice_glitches.simps
    by (intro and_then_ok [where Q = "\<lambda>s. canvas_inv w h (canvas s)"]) (simp_all add: Suc.IH)
qed

lemma rgb_split_inv:
  assumes "platform_ok P" and "canvas_inv w h (canvas s)" and "0 < w" and "0 < h"
  shows "fst (rgb_split P s) = None \<and> canvas_inv w h (canvas (snd (rgb_split P s)))"
proof -
  define s2 where "s2 = snd (next_random P (set_composite ''lighter'' s))"
  define offset where "offset = dmul (dsub (fst (next_random P (set_composite ''lighter'' s))) c0_5) (dnat 10)"
  have i2: "canvas_inv w h (canvas s2)"
    using set_composite_inv [OF assms(2)] by (simp add: s2_def)
  have e: "rgb_split P s =
      and_then (draw_self P [offset, dnat 0] s2) (\<lambda>s3.
      and_then (draw_self P [dneg offset, dnat 0] s3) (\<lambda>s4.
      (None, set_composite ''source-over'' s4)))"
    by (simp add: rgb_split_def split_beta Let_def s2_def offset_def)
  show ?thesis
    unfolding e
  proof (intro and_then_ok [where Q = "\<lambda>s. canvas_inv w h (canvas s)"])
    show "fst (draw_self P [offset, dnat 0] s2) = None"
      and "canvas_inv w h (canvas (snd (draw_self P [offset, dnat 0] s2)))"
      using draw_self_inv [OF assms(1) i2 assms(3,4)] by simp_all
  next
    fix s3 :: app assume "canvas_inv w h (canvas s3)"
    then show "fst (draw_self P [dneg offset, dnat 0] s3) = None"
      and "canvas_inv w h (canvas (snd (draw_self P [dneg offset, dnat 0] s3)))"
      using draw_self_inv [OF assms(1) _ assms(3,4)] by simp_all
  next
    fix s3 s4 :: app assume "canvas_inv w h (canvas s4)"
    then show "fst (None :: error option, set_composite ''source-over'' s4) = None \<and>
      canvas_inv w h (canvas (snd (None :: error option, set_composite ''source-over'' s4)))"
      by (simp add: set_composite_inv)
  qed
qed

lemma applyShadowEffect_inv:
  assumes "platform_ok P" and "canvas_inv w h (canvas s)" and "0 < w" and "0 < h"
  shows "fst (applyShadowEffect P s) = None \<and> canvas_inv w h (canvas (snd (applyShadowEffect P s)))"
proof -
  define s1 where "s1 = on_canvas (\<lambda>c. fill_gradient P (shadow_gradient c) c) s"
  define r1 where "r1 = fst (next_random P s1)"
  define s2 where "s2 = snd (next_random P s1)"
  have i1: "canvas_inv w h (canvas s1)"
    using fill_gradient_inv [OF assms(1,2)] by (simp add: s1_def on_canvas_def)
  then have i2: "canvas_inv w h (canvas s2)"
    by (simp add: s2_def)
  have e: "applyShadowEffect P s =
      and_then (if dlt c0_85 r1 then slice_glitches P 2 s2 else (None, s2)) (\<lambda>s3.
         let (r2, s4) = next_random P s3
         in if dlt c0_95 r2 then rgb_split P s4 else (None, s4))"
    by (simp add: applyShadowEffect_def split_beta Let_def s1_def r1_def s2_def)
  show ?thesis
    unfolding e
  proof (intro and_then_ok [where Q = "\<lambda>s. canvas_inv w h (canvas s)"])
    show "fst (if dlt c0_85 r1 then slice_glitches P 2 s2 else (None, s2)) = None"
      and "canvas_inv w h (canvas (snd (if dlt c0_85 r1 then slice_glitches P 2 s2 else (None, s2))))"
      using slice_glitches_inv [OF assms(1,3,4) i2, of 2] i2 by simp_all
  next
    fix s3 :: app assume i3: "canvas_inv w h (canvas s3)"
    then have "canvas_inv w h (canvas (snd (next_random P s3)))"
      by simp
    from rgb_split_inv [OF assms(1) this assms(3,4)] this
    show "fst (let (r2, s4) = next_random P s3
               in if dlt c0_95 r2 then rgb_split P s4 else (None, s4)) = None \<and>
          canvas_inv w h (canvas (snd (let (r2, s4) = next_random P s3
               in if dlt c0_95 r2 then rgb_split P s4 else (None, s4))))"
      by (simp add: split_beta Let_def)
  qed
qed

lemma applySelfEffect_inv:
  assumes "platform_ok P" and "canvas_inv w h (canvas s)"
  shows "fst (applySelfEffect P s) = None \<and> canvas_inv w h (canvas (snd (applySelfEffect P s)))"
  using fill_gradient_inv [OF assms] by (simp add: applySelfEffect_def on_canvas_def)

lemma applyPersonaEffect_inv:
  assumes "platform_ok P" and "canvas_inv w h (canvas s)" and "0 < w" and "0 < h"
  shows "fst (applyPersonaEffect P s) = None \<and> canvas_inv w h (canvas (snd (applyPersonaEffect P s)))"
proof -
  have "canvas_inv w h (putImageData P (persona_loop 0 (pixels (canvas s))) (canvas s))"
    using assms(2)
    by (intro putImageData_inv) (simp_all add: canvas_inv_def persona_loop_length persona_loop_bytes)
  from fill_gradient_inv [OF assms(1) this] assms(2,3,4) show ?thesis
    by (simp add: applyPersonaEffect_def getImageData_def on_canvas_def canvas_inv_def)
qed

lemma applyTricksterEffect_inv:
  assumes "canvas_inv w h (canvas s)" and "0 < w" and "0 < h"
  shows "fst (applyTricksterEffect P s) = None \<and> canvas_inv w h (canvas (snd (applyTricksterEffect P s)))"
proof -
  have "canvas_inv w h (putImageData P (trickster_loop 0 (pixels (canvas s))) (canvas s))"
    using assms(1)
    by (intro putImageData_inv) (simp_all add: canvas_inv_def trickster_loop_length trickster_loop_bytes)
  with assms show ?thesis
    by (simp add: applyTricksterEffect_def getImageData_def on_canvas_def canvas_inv_def)
qed

lemma applyAnimaEffect_inv:
  assumes "canvas_inv w h (canvas s)" and "0 < w" and "0 < h"
  shows "fst (applyAnimaEffect P s) = None \<and> canvas_inv w h (canvas (snd (applyAnimaEffect P s)))"
proof -
  have "canvas_inv w h (putImageData P (anima_data w h (pixels (canvas s))) (canvas s))"
    using assms(1)
    by (intro putImageData_inv) (simp_all add: canvas_inv_def anima_data_length anima_data_bytes mult.commute)
  with assms show ?thesis
    by (simp add: applyAnimaEffect_def getImageData_def on_canvas_def canvas_inv_def)
qed

lemma archetype_ids:
  "map id' archetypes = [''self'', ''persona'', ''shadow'', ''anima'', ''trickster'']"
  by (simp add: archetypes_def)





text \<open>
  C4. On a canvas of positive width and height whose buffer has four byte channels per
  pixel, the overlay of each of the five effects (self, persona, shadow, anima, trickster)
  returns without an exception, leaves the width and the height of the canvas as they
  were, and leaves a buffer of the same length in which every channel is within 0..255.
  The gradient fills and the self-draws of the self, persona and shadow overlays are the
  browser's; of these the theorem assumes that they keep a buffer in shape.
\<close>

theorem C4_effects_keep_shape:
  assumes "platform_ok P" and "filterId \<in> set (map id' archetypes)"
    and "0 < width (canvas s)" and "0 < height (canvas s)"
    and "length (pixels (canvas s)) = 4 * (width (canvas s) * height (canvas s))"
    and "bytes (pixels (canvas s))"
  shows "fst (applyOverlayFilter P filterId s) = None
    \<and> width (canvas (snd (applyOverlayFilter P filterId s))) = width (canvas s)
    \<and> height (canvas (snd (applyOverlayFilter P filterId s))) = height (canvas s)
    \<and> length (pixels (canvas (snd (applyOverlayFilter P filterId s))))
        = 4 * (width (canvas s) * height (canvas s))
    \<and> bytes (pixels (canvas (snd (applyOverlayFilter P filterId s))))"
proof -
  define w where "w = width (canvas s)"
  define h where "h = height (canvas s)"
  have inv: "canvas_inv w h (canvas s)" and pos: "0 < w" "0 < h"
    using assms(3-6) by (simp_all add: canvas_inv_def w_def h_def)
  from assms(2) have "filterId = ''self'' \<or> filterId = ''persona'' \<or> filterId = ''shadow''
    \<or> filterId = ''anima'' \<or> filterId = ''trickster''"
    unfolding archetype_ids by simp
  then consider "filterId = ''self''" | "filterId = ''persona''" | "filterId = ''shadow''"
    | "filterId = ''anima''" | "filterId = ''trickster''"
    by blast
  then have "fst (applyOverlayFilter P filterId s) = None
      \<and> canvas_inv w h (canvas (snd (applyOverlayFilter P filterId s)))"
  proof cases
    case 1
    with applySelfEffect_inv [OF assms(1) inv] show ?thesis
      unfolding applyOverlayFilter_def by simp
  next
    case 2
    with applyPersonaEffect_inv [OF assms(1) inv pos] show ?thesis
      unfolding applyOverlayFilter_def by simp
  next
    case 3
    with applyShadowEffect_inv [OF assms(1) inv pos] show ?thesis
      unfolding applyOverlayFilter_def by simp
  next
    case 4
    with applyAnimaEffect_inv [OF inv pos] show ?thesis
      unfolding applyOverlayFilter_def by simp
  next
    case 5
    with applyTricksterEffect_inv [OF inv pos] show ?thesis
      unfolding applyOverlayFilter_def by simp
  qed
  then show ?thesis
    by (simp add: canvas_inv_def w_def h_def)
qed



lemma canvas_init_app [simp]: "canvas (init_app w h) = init_canvas w h"
  by (simp add: init_app_def)

lemma init_canvas_simps [simp]:
  "width (init_canvas w h) = w" "height (init_canvas w h) = h"
  "pixels (init_canvas w h) = replicate (4 * (w * h)) 0"
  "ctx (init_canvas w h) = default_ctx" "saved (init_canvas w h) = []"
  by (simp_all add: init_canvas_def)

lemma canvas_on_canvas [simp]: "canvas (on_canvas f s) = f (canvas s)"
  by (simp add: on_canvas_def)

lemma canvas_with_pixels [simp]: "canvas (with_pixels d s) = (canvas s)\<lparr>pixels := d\<rparr>"
  by (simp add: with_pixels_def)

lemma putImageData_simps [simp]:
  "width (putImageData P d c) = width c" "height (putImageData P d c) = height c"
  "length (pixels (putImageData P d c)) = length d" "ctx (putImageData P d c) = ctx c"
  "saved (putImageData P d c) = saved c"
  by (simp_all add: putImageData_def)

theorem C4_effects_keep_shape_witness:
  "platform_ok example_platform
   \<and> ''shadow'' \<in> set (map id' archetypes)
   \<and> 0 < width (canvas (with_pixels [10, 200, 255, 40, 0, 1, 2, 3] (init_app 2 1))) \<and> 0 < height (canvas (with_pixels [10, 200, 255, 40, 0, 1, 2, 3] (init_app 2 1)))
   \<and> length (pixels (canvas (with_pixels [10, 200, 255, 40, 0, 1, 2, 3] (init_app 2 1)))) = 4 * (width (canvas (with_pixels [10, 200, 255, 40, 0, 1, 2, 3] (init_app 2 1))) * height (canvas (with_pixels [10, 200, 255, 40, 0, 1, 2, 3] (init_app 2 1))))
   \<and> bytes (pixels (canvas (with_pixels [10, 200, 255, 40, 0, 1, 2, 3] (init_app 2 1))))
   \<and> fst (applyOverlayFilter example_platform ''shadow'' (with_pixels [10, 200, 255, 40, 0, 1, 2, 3] (init_app 2 1))) = None
   \<and> width (canvas (snd (applyOverlayFilter example_platform ''shadow'' (with_pixels [10, 200, 255, 40, 0, 1, 2, 3] (init_app 2 1))))) = 2
   \<and> height (canvas (snd (applyOverlayFilter example_platform ''shadow'' (with_pixels [10, 200, 255, 40, 0, 1, 2, 3] (init_app 2 1))))) = 1
   \<and> length (pixels (canvas (snd (applyOverlayFilter example_platform ''shadow'' (with_pixels [10, 200, 255, 40, 0, 1, 2, 3] (init_app 2 1)))))) = 8
   \<and> bytes (pixels (canvas (snd (applyOverlayFilter example_platform ''shadow'' (with_pixels [10, 200, 255, 40, 0, 1, 2, 3] (init_app 2 1))))))"
proof -
  define s0 where "s0 = with_pixels [10, 200, 255, 40, 0, 1, 2, 3] (init_app 2 1)"
  have p: "platform_ok example_platform"
    by (simp add: platform_ok_def example_platform_def bytes_def list_all_iff)
  have f: "''shadow'' \<in> set (map id' archetypes)"
    unfolding archetype_ids by simp
  have w: "width (canvas s0) = 2" and h: "height (canvas s0) = 1"
    and d: "pixels (canvas s0) = [10, 200, 255, 40, 0, 1, 2, 3]"
    by (simp_all add: s0_def)
  have h3: "0 < width (canvas s0)" and h4: "0 < height (canvas s0)"
    and h5: "length (pixels (canvas s0)) = 4 * (width (canvas s0) * height (canvas s0))"
    and h6: "bytes (pixels (canvas s0))"
    by (simp_all add: w h d bytes_def)
  from C4_effects_keep_shape [OF p f h3 h4 h5 h6] p f h3 h4 h5 h6 show ?thesis
    unfolding s0_def [symmetric] by (simp add: w h)
qed

lemma applyFilter_known:
  assumes "find (\<lambda>a. id' a = filterId) archetypes = Some cf"
  shows "fst (applyFilter filterId s) = None"
    and "currentFilter (snd (applyFilter filterId s)) = Some cf"
    and "className (canvas (snd (applyFilter filterId s))) = id' cf"
    and "buttons (snd (applyFilter filterId s)) = map (\<lambda>(f, active). (f, f = filterId)) (buttons s)"
  using assms by (simp_all add: applyFilter_def)

lemma applyFilter_unknown:
  assumes "find (\<lambda>a. id' a = filterId) archetypes = None"
  shows "applyFilter filterId s = (Some TypeError, s\<lparr>currentFilter := None\<rparr>)"
  using assms by (simp add: applyFilter_def)

text \<open>
  C1, as stated, fails: selecting an id that is not in the catalog throws a TypeError, not
  a dedicated UnknownEffect, and only after \<open>currentFilter\<close> has been overwritten with
  \<^verbatim>\<open>undefined\<close>; after that mutation it references no effect definition.
\<close>

theorem C1_select_counterexample:
  "currentFilter (init_app 2 1) = Some (archetypes ! 0)
   \<and> fst (applyFilter ''bogus'' (init_app 2 1)) = Some TypeError
   \<and> currentFilter (snd (applyFilter ''bogus'' (init_app 2 1))) = None"
  by (simp add: applyFilter_def init_app_def archetypes_def)

text \<open>
  C1, amended. For an id of the five-entry catalog, \<^verbatim>\<open>applyFilter\<close> returns normally and
  sets \<open>currentFilter\<close> to the catalog entry with that id (and the class name of the canvas
  and the active button to the id). For any other id the call fails with a TypeError and
  leaves \<open>currentFilter\<close> undefined: there is no validation before the assignment.
\<close>

theorem C1_select:
  "(filterId \<in> set (map id' archetypes) \<longrightarrow>
      fst (applyFilter filterId s) = None
      \<and> (\<exists>a \<in> set archetypes. id' a = filterId
             \<and> currentFilter (snd (applyFilter filterId s)) = Some a)
      \<and> className (canvas (snd (applyFilter filterId s))) = filterId
      \<and> buttons (snd (applyFilter filterId s)) = map (\<lambda>(f, active). (f, f = filterId)) (buttons s))
   \<and> (filterId \<notin> set (map id' archetypes) \<longrightarrow>
      fst (applyFilter filterId s) = Some TypeError
      \<and> currentFilter (snd (applyFilter filterId s)) = None)"
proof (cases "find (\<lambda>a. id' a = filterId) archetypes")
  case None
  then have "filterId \<notin> set (map id' archetypes)"
    by (auto simp: find_None_iff)
  with applyFilter_unknown [OF None, of s] show ?thesis
    by simp
next
  case (Some cf)
  then have cf: "cf \<in> set archetypes" "id' cf = filterId"
    by (auto simp: find_Some_iff)
  then have "filterId \<in> set (map id' archetypes)"
    by auto
  with applyFilter_known [OF Some, of s] cf show ?thesis
    by auto
qed

theorem C1_select_witness:
  "''anima'' \<in> set (map id' archetypes)
   \<and> fst (applyFilter ''anima'' (init_app 2 1)) = None
   \<and> (\<exists>a \<in> set archetypes. id' a = ''anima''
          \<and> currentFilter (snd (applyFilter ''anima'' (init_app 2 1))) = Some a)
   \<and> className (canvas (snd (applyFilter ''anima'' (init_app 2 1)))) = ''anima''
   \<and> ''bogus'' \<notin> set (map id' archetypes)
   \<and> fst (applyFilter ''bogus'' (init_app 2 1)) = Some TypeError
   \<and> currentFilter (snd (applyFilter ''bogus'' (init_app 2 1))) = None"
proof -
  have a: "''anima'' \<in> set (map id' archetypes)" and b: "''bogus'' \<notin> set (map id' archetypes)"
    unfolding archetype_ids by simp_all
  from C1_select [of "''anima''" "init_app 2 1"] C1_select [of "''bogus''" "init_app 2 1"] a b
  show ?thesis
    by blast
qed








lemma fire_ticks_inactive:
  "\<not> interval_active (fst (snd st)) \<Longrightarrow> fire_ticks P n st = Some st"
  by (cases n) simp_all










text \<open>
  C2, as stated, fails. A start while a recording is in progress does not fail with an
  error: on the state of a running recording that holds one chunk, the call returns
  normally and leaves the whole state as it was; nothing is raised, alerted or logged.
  And a start is rejected only while \<open>isRecording\<close> is set: once \<^verbatim>\<open>stopRecording\<close> has run and
  the recorder's \<^verbatim>\<open>stop\<close> event is still to come, a start is accepted and empties the chunk
  sequence that \<^verbatim>\<open>handleRecordingStop\<close> has yet to deliver.
\<close>

theorem C2_start_while_recording_counterexample:
  "isRecording (ondataavailable [1, 2, 3] (snd (startRecording example_platform (init_app 2 1))))
   \<and> recordedChunks (ondataavailable [1, 2, 3] (snd (startRecording example_platform (init_app 2 1)))) = [[1, 2, 3]]
   \<and> startRecording example_platform (ondataavailable [1, 2, 3] (snd (startRecording example_platform (init_app 2 1)))) = (None, (ondataavailable [1, 2, 3] (snd (startRecording example_platform (init_app 2 1)))))
   \<and> map_option stop_queued (mediaRecorder (stopRecording (ondataavailable [1, 2, 3] (snd (startRecording example_platform (init_app 2 1)))))) = Some True
   \<and> recordedChunks (stopRecording (ondataavailable [1, 2, 3] (snd (startRecording example_platform (init_app 2 1))))) = [[1, 2, 3]]
   \<and> fst (startRecording example_platform (stopRecording (ondataavailable [1, 2, 3] (snd (startRecording example_platform (init_app 2 1)))))) = None
   \<and> recordedChunks (snd (startRecording example_platform (stopRecording (ondataavailable [1, 2, 3] (snd (startRecording example_platform (init_app 2 1))))))) = []"
  by (simp add: startRecording_def stopRecording_def ondataavailable_def init_app_def
      example_platform_def mimeTypes_def)

text \<open>
  C2, amended. While a recording is in progress (\<open>isRecording\<close> is set), \<^verbatim>\<open>startRecording\<close> is
  a silent no-op: it returns normally, without raising or signalling an error, and leaves
  the whole state untouched, the chunk sequence of the running session included.
\<close>

theorem C2_start_while_recording:
  assumes "isRecording s"
  shows "startRecording P s = (None, s)
    \<and> recordedChunks (snd (startRecording P s)) = recordedChunks s
    \<and> alerts (snd (startRecording P s)) = alerts s
    \<and> console (snd (startRecording P s)) = console s"
  using assms by (simp add: startRecording_def)

theorem C2_start_while_recording_witness:
  "isRecording ((init_app 2 1)\<lparr>isRecording := True, recordedChunks := [[7, 8], [9]]\<rparr>)
   \<and> startRecording example_platform ((init_app 2 1)\<lparr>isRecording := True, recordedChunks := [[7, 8], [9]]\<rparr>)
       = (None, (init_app 2 1)\<lparr>isRecording := True, recordedChunks := [[7, 8], [9]]\<rparr>)
   \<and> recordedChunks (snd (startRecording example_platform
         ((init_app 2 1)\<lparr>isRecording := True, recordedChunks := [[7, 8], [9]]\<rparr>))) = [[7, 8], [9]]"
proof -
  have r: "isRecording ((init_app 2 1)\<lparr>isRecording := True, recordedChunks := [[7, 8], [9]]\<rparr>)"
    by simp
  from C2_start_while_recording [OF r, of example_platform] r show ?thesis
    by simp
qed

lemma find_first:
  "find Q xs = Some t \<Longrightarrow> \<exists>i < length xs. xs ! i = t \<and> Q t \<and> (\<forall>j < i. \<not> Q (xs ! j))"
  by (auto simp: find_Some_iff)

text \<open>
  C10. When no recording is in progress, \<^verbatim>\<open>startRecording\<close> probes the four MIME types in a
  fixed order (H.264 MP4, then VP9 WebM, then VP8 WebM, then plain WebM) and records with
  the first one that \<^verbatim>\<open>MediaRecorder.isTypeSupported\<close> accepts. If it accepts none, the call
  reports the failure (a console error and an alert), makes no recorder, sets no timer
  and delivers nothing, and leaves \<open>isRecording\<close> unset and the controls unlocked.
\<close>

theorem C10_negotiation:
  assumes "\<not> isRecording s"
  shows "mimeTypes = [''video/mp4; codecs='' @ [CHR 0x22] @ ''avc1.42E01E'' @ [CHR 0x22],
                      ''video/webm; codecs=vp9'', ''video/webm; codecs=vp8'', ''video/webm'']
    \<and> fst (startRecording P s) = None
    \<and> (\<forall>t. find (isTypeSupported P) mimeTypes = Some t \<longrightarrow>
          (\<exists>i < length mimeTypes. mimeTypes ! i = t \<and> isTypeSupported P t
               \<and> (\<forall>j < i. \<not> isTypeSupported P (mimeTypes ! j)))
          \<and> mediaRecorder (snd (startRecording P s))
              = Some \<lparr>mimeType = t, recorder_state = ''recording'', stop_queued = False\<rparr>
          \<and> isRecording (snd (startRecording P s))
          \<and> recordedChunks (snd (startRecording P s)) = []
          \<and> stop_timeouts (snd (startRecording P s)) = stop_timeouts s + 1
          \<and> alerts (snd (startRecording P s)) = alerts s)
    \<and> ((\<forall>t \<in> set mimeTypes. \<not> isTypeSupported P t) \<longrightarrow>
          alerts (snd (startRecording P s))
            = alerts s @ [''Video recording is not supported on this browser.'']
          \<and> console (snd (startRecording P s))
            = console s @ [(''error'', ''No supported MIME type found for MediaRecorder'')]
          \<and> \<not> isRecording (snd (startRecording P s))
          \<and> \<not> recordBtn_disabled (snd (startRecording P s))
          \<and> \<not> recordBtn_recording (snd (startRecording P s))
          \<and> \<not> screenshotBtn_disabled (snd (startRecording P s))
          \<and> \<not> randomBtn_disabled (snd (startRecording P s))
          \<and> filterList_pointerEvents (snd (startRecording P s)) = ''auto''
          \<and> downloads (snd (startRecording P s)) = downloads s
          \<and> recordedChunks (snd (startRecording P s)) = []
          \<and> stop_timeouts (snd (startRecording P s)) = stop_timeouts s
          \<and> ((\<forall>r. mediaRecorder s = Some r \<longrightarrow> recorder_state r \<noteq> ''recording'')
               \<longrightarrow> mediaRecorder (snd (startRecording P s)) = mediaRecorder s))"
proof (intro conjI allI impI)
  show "mimeTypes = [''video/mp4; codecs='' @ [CHR 0x22] @ ''avc1.42E01E'' @ [CHR 0x22],
                      ''video/webm; codecs=vp9'', ''video/webm; codecs=vp8'', ''video/webm'']"
    by (simp add: mimeTypes_def)
  show "fst (startRecording P s) = None"
    by (simp add: startRecording_def Let_def split: option.split)
next
  fix t assume t: "find (isTypeSupported P) mimeTypes = Some t"
  from find_first [OF t]
  show "\<exists>i < length mimeTypes. mimeTypes ! i = t \<and> isTypeSupported P t
               \<and> (\<forall>j < i. \<not> isTypeSupported P (mimeTypes ! j))" .
  show "mediaRecorder (snd (startRecording P s))
              = Some \<lparr>mimeType = t, recorder_state = ''recording'', stop_queued = False\<rparr>"
    and "isRecording (snd (startRecording P s))"
    and "recordedChunks (snd (startRecording P s)) = []"
    and "stop_timeouts (snd (startRecording P s)) = stop_timeouts s + 1"
    and "alerts (snd (startRecording P s)) = alerts s"
    using assms t by (simp_all add: startRecording_def Let_def)
next
  assume "\<forall>t \<in> set mimeTypes. \<not> isTypeSupported P t"
  then have n: "find (isTypeSupported P) mimeTypes = None"
    by (simp add: find_None_iff)
  show "alerts (snd (startRecording P s))
            = alerts s @ [''Video recording is not supported on this browser.'']"
    and "console (snd (startRecording P s))
            = console s @ [(''error'', ''No supported MIME type found for MediaRecorder'')]"
    and "\<not> isRecording (snd (startRecording P s))"
    and "\<not> recordBtn_disabled (snd (startRecording P s))"
    and "\<not> recordBtn_recording (snd (startRecording P s))"
    and "\<not> screenshotBtn_disabled (snd (startRecording P s))"
    and "\<not> randomBtn_disabled (snd (startRecording P s))"
    and "filterList_pointerEvents (snd (startRecording P s)) = ''auto''"
    and "downloads (snd (startRecording P s)) = downloads s"
    and "recordedChunks (snd (startRecording P s)) = []"
    and "stop_timeouts (snd (startRecording P s)) = stop_timeouts s"
    using assms n by (simp_all add: startRecording_def stopRecording_def Let_def split: option.split)
  assume "\<forall>r. mediaRecorder s = Some r \<longrightarrow> recorder_state r \<noteq> ''recording''"
  with assms n show "mediaRecorder (snd (startRecording P s)) = mediaRecorder s"
    by (simp add: startRecording_def stopRecording_def Let_def split: option.split)
qed


theorem C10_negotiation_witness:
  "\<not> isRecording (init_app 2 1)
   \<and> find (isTypeSupported example_platform) mimeTypes = Some ''video/webm''
   \<and> mediaRecorder (snd (startRecording example_platform (init_app 2 1)))
       = Some \<lparr>mimeType = ''video/webm'', recorder_state = ''recording'', stop_queued = False\<rparr>
   \<and> isRecording (snd (startRecording example_platform (init_app 2 1)))
   \<and> find (isTypeSupported (example_platform\<lparr>isTypeSupported := \<lambda>t. False\<rparr>)) mimeTypes = None
   \<and> mediaRecorder (init_app 2 1) = None
   \<and> alerts (snd (startRecording (example_platform\<lparr>isTypeSupported := \<lambda>t. False\<rparr>) (init_app 2 1)))
       = alerts (init_app 2 1) @ [''Video recording is not supported on this browser.'']
   \<and> \<not> isRecording (snd (startRecording (example_platform\<lparr>isTypeSupported := \<lambda>t. False\<rparr>) (init_app 2 1)))
   \<and> \<not> recordBtn_disabled (snd (startRecording (example_platform\<lparr>isTypeSupported := \<lambda>t. False\<rparr>) (init_app 2 1)))
   \<and> downloads (snd (startRecording (example_platform\<lparr>isTypeSupported := \<lambda>t. False\<rparr>) (init_app 2 1))) = downloads (init_app 2 1)
   \<and> mediaRecorder (snd (startRecording (example_platform\<lparr>isTypeSupported := \<lambda>t. False\<rparr>) (init_app 2 1))) = mediaRecorder (init_app 2 1)"
proof -
  have i: "\<not> isRecording (init_app 2 1)"
    and m: "\<forall>r. mediaRecorder (init_app 2 1) = Some r \<longrightarrow> recorder_state r \<noteq> ''recording''"
    by (simp_all add: init_app_def)
  have f: "find (isTypeSupported example_platform) mimeTypes = Some ''video/webm''"
    by (simp add: example_platform_def mimeTypes_def)
  have n: "\<forall>t \<in> set mimeTypes. \<not> isTypeSupported (example_platform\<lparr>isTypeSupported := \<lambda>t. False\<rparr>) t"
    by simp
  have fn: "find (isTypeSupported (example_platform\<lparr>isTypeSupported := \<lambda>t. False\<rparr>)) mimeTypes = None"
    by (simp add: mimeTypes_def)
  have mn: "mediaRecorder (init_app 2 1) = None"
    by (simp add: init_app_def)
  from C10_negotiation [OF i, of example_platform] C10_negotiation [OF i, of "(example_platform\<lparr>isTypeSupported := \<lambda>t. False\<rparr>)"] i m f n fn mn
  show ?thesis
    by blast
qed

lemma overlay_frameI:
  "s' = s\<lparr>canvas := (canvas s)\<lparr>pixels := px, ctx := st\<rparr>, rand_pos := n\<rparr> \<Longrightarrow> overlay_frame s s'"
  unfolding overlay_frame_def by blast

lemma overlay_frame_refl: "overlay_frame s s"
  by (rule overlay_frameI [where px = "pixels (canvas s)" and st = "ctx (canvas s)" and n = "rand_pos s"]) simp

lemma overlay_frame_trans:
  assumes "overlay_frame s s'" and "overlay_frame s' s''"
  shows "overlay_frame s s''"
proof -
  from assms(1) obtain px st n where
    1: "s' = s\<lparr>canvas := (canvas s)\<lparr>pixels := px, ctx := st\<rparr>, rand_pos := n\<rparr>"
    unfolding overlay_frame_def by blast
  from assms(2) obtain px' st' n' where
    2: "s'' = s'\<lparr>canvas := (canvas s')\<lparr>pixels := px', ctx := st'\<rparr>, rand_pos := n'\<rparr>"
    unfolding overlay_frame_def by blast
  show ?thesis
    by (rule overlay_frameI [where px = px' and st = st' and n = n']) (simp add: 1 2)
qed

lemma overlay_frame_keeps:
  assumes "overlay_frame s s'"
  shows "width (canvas s') = width (canvas s)" and "height (canvas s') = height (canvas s)"
    and "saved (canvas s') = saved (canvas s)" and "downloads s' = downloads s"
    and "currentFilter s' = currentFilter s" and "frame_requested s' = frame_requested s"
proof -
  from assms obtain px st n where
    1: "s' = s\<lparr>canvas := (canvas s)\<lparr>pixels := px, ctx := st\<rparr>, rand_pos := n\<rparr>"
    unfolding overlay_frame_def by blast
  show "width (canvas s') = width (canvas s)" and "height (canvas s') = height (canvas s)"
    and "saved (canvas s') = saved (canvas s)" and "downloads s' = downloads s"
    and "currentFilter s' = currentFilter s" and "frame_requested s' = frame_requested s"
    by (simp_all add: 1)
qed

lemma overlay_step_pure: "overlay_frame s s' \<Longrightarrow> overlay_step s (None, s')"
  by (simp add: overlay_step_def)

lemma overlay_step_then:
  assumes "overlay_step s r" and "\<And>s1. overlay_frame s s1 \<Longrightarrow> overlay_step s1 (f s1)"
  shows "overlay_step s (and_then r f)"
proof (cases r)
  case (Pair e s1)
  with assms(1) have fr: "overlay_frame s s1"
    and ok: "0 < width (canvas s) \<and> 0 < height (canvas s) \<longrightarrow> e = None"
    by (simp_all add: overlay_step_def)
  note st = assms(2) [OF fr]
  show ?thesis
  proof (cases e)
    case None
    with Pair have "and_then r f = f s1"
      by (simp add: and_then_def)
    moreover have "overlay_frame s (snd (f s1))"
      using st fr by (auto simp: overlay_step_def intro: overlay_frame_trans)
    moreover have "fst (f s1) = None" if "0 < width (canvas s) \<and> 0 < height (canvas s)"
      using st that overlay_frame_keeps(1,2) [OF fr] by (simp add: overlay_step_def)
    ultimately show ?thesis
      by (simp add: overlay_step_def)
  next
    case (Some x)
    with Pair have "and_then r f = (Some x, s1)"
      by (simp add: and_then_def)
    with fr ok Some show ?thesis
      by (simp add: overlay_step_def)
  qed
qed

lemma frame_next_random: "overlay_frame s (snd (next_random P s))"
  by (rule overlay_frameI [where px = "pixels (canvas s)" and st = "ctx (canvas s)" and n = "rand_pos s + 1"])
     (simp add: next_random_def)

lemma frame_on_canvas:
  assumes "\<And>c. f c = c\<lparr>pixels := pixels (f c), ctx := ctx (f c)\<rparr>"
  shows "overlay_frame s (on_canvas f s)"
  by (rule overlay_frameI [where px = "pixels (f (canvas s))" and st = "ctx (f (canvas s))" and n = "rand_pos s"])
     (simp add: on_canvas_def assms [symmetric])

lemma frame_fill_gradient: "overlay_frame s (on_canvas (\<lambda>c. fill_gradient P (g c) c) s)"
  by (rule frame_on_canvas) (simp add: fill_gradient_def Let_def)

lemma frame_put: "overlay_frame s (on_canvas (putImageData P d) s)"
  by (rule frame_on_canvas) (simp add: putImageData_def)

lemma frame_set_composite: "overlay_frame s (set_composite op s)"
  unfolding set_composite_def by (rule frame_on_canvas) simp


lemma frame_canvas:
  assumes "c' = (canvas s)\<lparr>pixels := pixels c', ctx := ctx c'\<rparr>"
  shows "overlay_frame s (s\<lparr>canvas := c'\<rparr>)"
  by (rule overlay_frameI [where px = "pixels c'" and st = "ctx c'" and n = "rand_pos s"])
     (simp add: assms [symmetric])

lemma step_drawImage_canvas:
  "overlay_step s (fst (drawImage_canvas P args (canvas s)),
                   s\<lparr>canvas := snd (drawImage_canvas P args (canvas s))\<rparr>)"
  unfolding overlay_step_def
  by (auto simp: drawImage_canvas_def overlay_frame_refl intro!: frame_canvas)

lemma step_draw_self: "overlay_step s (draw_self P args s)"
  using step_drawImage_canvas [of s P args] by (simp add: draw_self_def split_beta)

lemma overlay_step_from:
  assumes "overlay_frame s s1" and "overlay_step s1 r"
  shows "overlay_step s r"
  using assms overlay_frame_keeps(1,2) [OF assms(1)]
  by (auto simp: overlay_step_def intro: overlay_frame_trans)

lemma step_slice_glitch: "overlay_step s (slice_glitch P s)"
proof -
  define s1 where "s1 = snd (next_random P s)"
  define s2 where "s2 = snd (next_random P s1)"
  define s3 where "s3 = snd (next_random P s2)"
  define y where "y = dmul (fst (next_random P s)) (dnat (height (canvas s)))"
  define h where "h = dadd (dmul (fst (next_random P s1)) (dnat 30)) (dnat 10)"
  define xOffset where "xOffset = dmul (dsub (fst (next_random P s2)) c0_5) (dnat 40)"
  define args where "args = [xOffset, y, dnat (width (canvas s)), h, dnat 0, y, dnat (width (canvas s)), h]"
  have f1: "overlay_frame s s1" and f2: "overlay_frame s1 s2" and f3: "overlay_frame s2 s3"
    unfolding s1_def s2_def s3_def by (rule frame_next_random)+
  have f: "overlay_frame s s3"
    by (rule overlay_frame_trans [OF overlay_frame_trans [OF f1 f2] f3])
  have e: "slice_glitch P s =
      (fst (drawImage_canvas P args (canvas s3)), s3\<lparr>canvas := snd (drawImage_canvas P args (canvas s3))\<rparr>)"
    unfolding slice_glitch_def Let_def split_beta
    by (simp only: s1_def [symmetric] s2_def [symmetric] s3_def [symmetric] y_def [symmetric]
        h_def [symmetric] xOffset_def [symmetric] args_def [symmetric])
  show ?thesis
    unfolding e by (rule overlay_step_from [OF f step_drawImage_canvas])
qed

lemma step_slice_glitches: "overlay_step s (slice_glitches P n s)"
proof (induction n arbitrary: s)
  case 0
  show ?case by (simp add: overlay_step_pure overlay_frame_refl)
next
  case (Suc n)
  show ?case
    unfolding slice_glitches.simps
    by (rule overlay_step_then [OF step_slice_glitch]) (rule Suc.IH)
qed

lemma step_rgb_split: "overlay_step s (rgb_split P s)"
proof -
  define s2 where "s2 = snd (next_random P (set_composite ''lighter'' s))"
  define offset where "offset = dmul (dsub (fst (next_random P (set_composite ''lighter'' s))) c0_5) (dnat 10)"
  have f2: "overlay_frame s s2"
    unfolding s2_def by (rule overlay_frame_trans [OF frame_set_composite frame_next_random])
  have e: "rgb_split P s =
      and_then (draw_self P [offset, dnat 0] s2) (\<lambda>s3.
      and_then (draw_self P [dneg offset, dnat 0] s3) (\<lambda>s4.
      (None, set_composite ''source-over'' s4)))"
    by (simp add: rgb_split_def split_beta Let_def s2_def offset_def)
  have "overlay_step s2 (rgb_split P s)"
    unfolding e
    by (intro overlay_step_then step_draw_self overlay_step_pure frame_set_composite)
  with f2 show ?thesis
    by (rule overlay_step_from)
qed

lemma step_shadow: "overlay_step s (applyShadowEffect P s)"
proof -
  define s1 where "s1 = on_canvas (\<lambda>c. fill_gradient P (shadow_gradient c) c) s"
  define r1 where "r1 = fst (next_random P s1)"
  define s2 where "s2 = snd (next_random P s1)"
  have f2: "overlay_frame s s2"
    unfolding s2_def s1_def by (rule overlay_frame_trans [OF frame_fill_gradient frame_next_random])
  have e: "applyShadowEffect P s =
      and_then (if dlt c0_85 r1 then slice_glitches P 2 s2 else (None, s2)) (\<lambda>s3.
         let (r2, s4) = next_random P s3
         in if dlt c0_95 r2 then rgb_split P s4 else (None, s4))"
    by (simp add: applyShadowEffect_def split_beta Let_def s1_def r1_def s2_def)
  have a: "overlay_step s2 (if dlt c0_85 r1 then slice_glitches P 2 s2 else (None, s2))"
    by (simp add: step_slice_glitches overlay_step_pure overlay_frame_refl)
  have b: "overlay_step s3 (let (r2, s4) = next_random P s3
         in if dlt c0_95 r2 then rgb_split P s4 else (None, s4))" for s3
  proof -
    have "overlay_step (snd (next_random P s3))
        (if dlt c0_95 (fst (next_random P s3)) then rgb_split P (snd (next_random P s3))
         else (None, snd (next_random P s3)))"
      by (simp add: step_rgb_split overlay_step_pure overlay_frame_refl)
    from overlay_step_from [OF frame_next_random this] show ?thesis
      by (simp add: split_beta)
  qed
  have "overlay_step s2 (applyShadowEffect P s)"
    unfolding e by (rule overlay_step_then [OF a b])
  with f2 show ?thesis
    by (rule overlay_step_from)
qed

lemma step_self: "overlay_step s (applySelfEffect P s)"
  unfolding applySelfEffect_def by (rule overlay_step_pure [OF frame_fill_gradient])

lemma step_persona: "overlay_step s (applyPersonaEffect P s)"
proof (cases "width (canvas s) = 0 \<or> height (canvas s) = 0")
  case True
  then show ?thesis
    by (auto simp: applyPersonaEffect_def getImageData_def overlay_step_def overlay_frame_refl)
next
  case False
  have "overlay_frame s (on_canvas (\<lambda>c. fill_gradient P (persona_gradient c)
          (putImageData P (persona_loop 0 (pixels (canvas s))) c)) s)"
    by (rule frame_on_canvas) (simp add: fill_gradient_def Let_def putImageData_def)
  with False show ?thesis
    by (simp add: applyPersonaEffect_def getImageData_def overlay_step_pure)
qed

lemma step_trickster: "overlay_step s (applyTricksterEffect P s)"
  by (auto simp: applyTricksterEffect_def getImageData_def overlay_step_def overlay_frame_refl
      frame_put)

lemma step_anima: "overlay_step s (applyAnimaEffect P s)"
  by (auto simp: applyAnimaEffect_def getImageData_def overlay_step_def overlay_frame_refl
      frame_put)

lemma step_overlay: "overlay_step s (applyOverlayFilter P filterId s)"
  unfolding applyOverlayFilter_def
  by (simp add: step_shadow step_anima step_self step_persona step_trickster overlay_step_pure
      overlay_frame_refl)


lemma four_neq: "(4::nat) \<noteq> 0"
  by simp

lemma pixel_index:
  assumes "x < (w::nat)" and "k < (4::nat)"
  shows "(4 * (y * w + x) + k) div 4 = y * w + x" and "(4 * (y * w + x) + k) mod 4 = k"
    and "(y * w + x) mod w = x" and "(y * w + x) div w = y"
proof -
  have k: "k div 4 = 0" "k mod 4 = k"
    using assms(2) by simp_all
  show "(4 * (y * w + x) + k) div 4 = y * w + x"
    unfolding div_mult_self4 [OF four_neq] k by simp
  show "(4 * (y * w + x) + k) mod 4 = k"
    unfolding mod_mult_self4 k by (rule refl)
  show "(y * w + x) mod w = x"
    using assms(1) by simp
  show "(y * w + x) div w = y"
    using assms(1) by simp
qed

lemma blit_length: "length (blit st w src dst) = length dst"
  by (simp add: blit_def)

lemma blit_identity:
  assumes "\<not> flipped st" and "shift st = 0" and "length src = length dst" and "0 < w"
  shows "blit st w src dst = src"
proof (rule nth_equalityI)
  show "length (blit st w src dst) = length src"
    using assms(3) by (simp add: blit_length)
next
  fix j assume "j < length (blit st w src dst)"
  then have j: "j < length dst"
    by (simp add: blit_length)
  have sx: "dev_src st ((j div 4) mod w) = int ((j div 4) mod w)"
    using assms(1,2) by (simp add: dev_src_def)
  have lt: "(j div 4) mod w < w"
    using assms(4) by simp
  have "(j div 4 div w) * w + (j div 4) mod w = j div 4"
    by simp
  then have idx: "4 * ((j div 4 div w) * w + (j div 4) mod w) + j mod 4 = j"
    by simp
  show "blit st w src dst ! j = src ! j"
    using j lt by (simp add: blit_def sx idx del: div_mult_mod_eq)
qed

lemma blit_mirror:
  assumes "flipped st" and "shift st = int w" and "length src = length dst" and "0 < w"
  shows "blit st w src dst = mirror_rows w src"
proof (rule nth_equalityI)
  show "length (blit st w src dst) = length (mirror_rows w src)"
    using assms(3) by (simp add: blit_length mirror_rows_def)
next
  fix j assume "j < length (blit st w src dst)"
  then have j: "j < length dst"
    by (simp add: blit_length)
  have lt: "(j div 4) mod w < w"
    using assms(4) by simp
  then have sx: "dev_src st ((j div 4) mod w) = int (w - 1 - (j div 4) mod w)"
    using assms(1,2) by (simp add: dev_src_def)
  have ge: "0 \<le> dev_src st ((j div 4) mod w) \<and> dev_src st ((j div 4) mod w) < int w"
    using lt unfolding sx by simp
  have n: "nat (dev_src st ((j div 4) mod w)) = w - 1 - (j div 4) mod w"
    unfolding sx by (rule nat_int)
  have "blit st w src dst ! j =
      src ! (4 * (((j div 4) div w) * w + nat (dev_src st ((j div 4) mod w))) + j mod 4)"
    using j ge by (simp add: blit_def Let_def)
  also have "\<dots> = mirror_rows w src ! j"
    unfolding n using j assms(3) by (simp add: mirror_rows_def)
  finally show "blit st w src dst ! j = mirror_rows w src ! j" .
qed

lemma mirror_rows_nth:
  "j < length d \<Longrightarrow>
   mirror_rows w d ! j = d ! (4 * (((j div 4) div w) * w + (w - 1 - (j div 4) mod w)) + j mod 4)"
  by (simp add: mirror_rows_def)

lemma mirror_rows_pixel:
  assumes "x < w" and "y < h" and "k < 4" and "length d = 4 * (w * h)"
  shows "mirror_rows w d ! (4 * (y * w + x) + k) = d ! (4 * (y * w + (w - 1 - x)) + k)"
proof -
  have "y * w + x < w * h"
    using assms(1,2) by (rule idx_bound)
  then have j: "4 * (y * w + x) + k < length d"
    using assms(3,4) by simp
  show ?thesis
    unfolding mirror_rows_nth [OF j] pixel_index [OF assms(1,3)] ..
qed

lemma and_then_None: "fst r = None \<Longrightarrow> and_then r f = f (snd r)"
  by (cases r) (simp add: and_then_def)

lemma clearRect_simps:
  "width (clearRect c) = width c" "height (clearRect c) = height c"
  "length (pixels (clearRect c)) = length (pixels c)" "ctx (clearRect c) = ctx c"
  "saved (clearRect c) = saved c"
  by (simp_all add: clearRect_def)

lemma clearRect_eq: "clearRect c = c\<lparr>pixels := pixels (clearRect c)\<rparr>"
  by (simp add: clearRect_def)

lemma shot_canvas:
  assumes "0 < width c"
    and "\<not> flipped (ctx c)" and "shift (ctx c) = 0"
    and "globalCompositeOperation (ctx c) = ''source-over''"
    and "videoWidth video = width c" and "videoHeight video = height c"
    and "length (frame_data video) = length (pixels c)" and "opaque (frame_data video)"
  shows "drawImage_video P video
           ((clearRect (ctx_save c))\<lparr>ctx := (ctx (clearRect (ctx_save c)))\<lparr>ctx_filter := ''none''\<rparr>\<rparr>)
         = c\<lparr>pixels := frame_data video, ctx := (ctx c)\<lparr>ctx_filter := ''none''\<rparr>,
             saved := ctx c # saved c\<rparr>"
proof -
  define c2 where "c2 = clearRect (ctx_save c)"
  define c3 where "c3 = c2\<lparr>ctx := (ctx c2)\<lparr>ctx_filter := ''none''\<rparr>\<rparr>"
  have c2: "width c2 = width c" "height c2 = height c" "length (pixels c2) = length (pixels c)"
    "ctx c2 = ctx c" "saved c2 = ctx c # saved c"
    by (simp_all add: c2_def clearRect_simps ctx_save_def)
  have b: "blit (ctx c3) (width c3) (frame_data video) (pixels c3) = frame_data video"
    using assms by (intro blit_identity) (simp_all add: c3_def c2)
  have "drawImage_video P video c3 = c3\<lparr>pixels := frame_data video\<rparr>"
    using assms by (simp add: drawImage_video_def b) (simp add: c3_def c2)
  also have "\<dots> = c\<lparr>pixels := frame_data video, ctx := (ctx c)\<lparr>ctx_filter := ''none''\<rparr>,
             saved := ctx c # saved c\<rparr>"
    unfolding c3_def c2(4) unfolding c2_def
    by (subst clearRect_eq) (simp add: ctx_save_def)
  finally show ?thesis
    unfolding c3_def c2_def .
qed

lemma live_canvas:
  assumes "0 < width c"
    and "\<not> flipped (ctx c)" and "shift (ctx c) = 0"
    and "globalCompositeOperation (ctx c) = ''source-over''"
    and "videoWidth video = width c" and "videoHeight video = height c"
    and "length (frame_data video) = length (pixels c)" and "opaque (frame_data video)"
  shows "drawImage_video P video
           ((clearRect (scale_mirror (translate_x (int (width c)) (ctx_save c))))
              \<lparr>ctx := (ctx (clearRect (scale_mirror (translate_x (int (width c)) (ctx_save c)))))
                        \<lparr>ctx_filter := ''none''\<rparr>\<rparr>)
         = c\<lparr>pixels := mirror_rows (width c) (frame_data video),
             ctx := (ctx c)\<lparr>shift := int (width c), flipped := True, ctx_filter := ''none''\<rparr>,
             saved := ctx c # saved c\<rparr>"
proof -
  define c1 where "c1 = scale_mirror (translate_x (int (width c)) (ctx_save c))"
  define c2 where "c2 = clearRect c1"
  define c3 where "c3 = c2\<lparr>ctx := (ctx c2)\<lparr>ctx_filter := ''none''\<rparr>\<rparr>"
  have c1: "c1 = c\<lparr>ctx := (ctx c)\<lparr>shift := int (width c), flipped := True\<rparr>,
                    saved := ctx c # saved c\<rparr>"
    using assms(2,3) by (simp add: c1_def scale_mirror_def translate_x_def ctx_save_def)
  have c2: "width c2 = width c" "height c2 = height c" "length (pixels c2) = length (pixels c)"
    "ctx c2 = (ctx c)\<lparr>shift := int (width c), flipped := True\<rparr>" "saved c2 = ctx c # saved c"
    by (simp_all add: c2_def clearRect_simps c1)
  have b: "blit (ctx c3) (width c3) (frame_data video) (pixels c3)
      = mirror_rows (width c) (frame_data video)"
  proof -
    have "blit (ctx c3) (width c) (frame_data video) (pixels c3)
        = mirror_rows (width c) (frame_data video)"
      using assms by (intro blit_mirror) (simp_all add: c3_def c2)
    then show ?thesis
      by (simp add: c3_def c2)
  qed
  have "drawImage_video P video c3 = c3\<lparr>pixels := mirror_rows (width c) (frame_data video)\<rparr>"
    using assms by (simp add: drawImage_video_def b) (simp add: c3_def c2)
  also have "\<dots> = c\<lparr>pixels := mirror_rows (width c) (frame_data video),
             ctx := (ctx c)\<lparr>shift := int (width c), flipped := True, ctx_filter := ''none''\<rparr>,
             saved := ctx c # saved c\<rparr>"
    unfolding c3_def c2(4) unfolding c2_def
    by (subst clearRect_eq) (simp add: c1)
  finally show ?thesis
    unfolding c3_def c2_def c1_def .
qed


lemma ctx_restore_pushed:
  assumes "saved c' = st # rest"
  shows "ctx (ctx_restore c') = st" and "saved (ctx_restore c') = rest"
    and "pixels (ctx_restore c') = pixels c'"
  using assms by (simp_all add: ctx_restore_def)

lemma overlay_on_pre:
  assumes "0 < width (canvas pre)" and "0 < height (canvas pre)"
  shows "fst (applyOverlayFilter P fid pre) = None"
    and "width (canvas (snd (applyOverlayFilter P fid pre))) = width (canvas pre)"
    and "height (canvas (snd (applyOverlayFilter P fid pre))) = height (canvas pre)"
    and "saved (canvas (snd (applyOverlayFilter P fid pre))) = saved (canvas pre)"
    and "downloads (snd (applyOverlayFilter P fid pre)) = downloads pre"
proof -
  from step_overlay [of pre P fid]
  have f: "overlay_frame pre (snd (applyOverlayFilter P fid pre))"
    and n: "fst (applyOverlayFilter P fid pre) = None"
    using assms by (simp_all add: overlay_step_def)
  show "fst (applyOverlayFilter P fid pre) = None" by (rule n)
  show "width (canvas (snd (applyOverlayFilter P fid pre))) = width (canvas pre)"
    and "height (canvas (snd (applyOverlayFilter P fid pre))) = height (canvas pre)"
    and "saved (canvas (snd (applyOverlayFilter P fid pre))) = saved (canvas pre)"
    and "downloads (snd (applyOverlayFilter P fid pre)) = downloads pre"
    using overlay_frame_keeps [OF f] by simp_all
qed

lemma takeScreenshot_eq:
  assumes cf: "currentFilter s = Some cf"
    and pos: "0 < width (canvas s)" "0 < height (canvas s)"
    and tr: "\<not> flipped (ctx (canvas s))" "shift (ctx (canvas s)) = 0"
    and gco: "globalCompositeOperation (ctx (canvas s)) = ''source-over''"
    and vid: "videoWidth video = width (canvas s)" "videoHeight video = height (canvas s)"
      "length (frame_data video) = length (pixels (canvas s))" "opaque (frame_data video)"
    and pre: "pre = s\<lparr>canvas := (canvas s)\<lparr>pixels := frame_data video,
                 ctx := (ctx (canvas s))\<lparr>ctx_filter := ''none''\<rparr>,
                 saved := ctx (canvas s) # saved (canvas s)\<rparr>\<rparr>"
    and shot: "shot = snd (applyOverlayFilter P (id' cf) pre)"
  shows "takeScreenshot P video s =
      (None, (on_canvas ctx_restore shot)\<lparr>downloads := downloads s @
         [(''jungian_mirror_'' @ id' cf @ ''.png'',
           DataURL (toDataURL P ''image/png'' (width (canvas s)) (height (canvas s))
                      (pixels (canvas shot))))]\<rparr>)"
proof -
  have s4: "on_canvas (drawImage_video P video)
              (applyDynamicFilter (id' cf) (on_canvas clearRect (on_canvas ctx_save s))) = pre"
    unfolding pre
    by (simp add: on_canvas_def applyDynamicFilter_def
        shot_canvas [OF pos(1) tr gco vid, of P])
  have p: "0 < width (canvas pre)" "0 < height (canvas pre)" "downloads pre = downloads s"
    "width (canvas pre) = width (canvas s)" "height (canvas pre) = height (canvas s)"
    using pos by (simp_all add: pre)
  note o = overlay_on_pre [OF p(1,2), of P "id' cf", folded shot]
  show ?thesis
    unfolding takeScreenshot_def cf option.case Let_def s4 and_then_None [OF o(1)] shot [symmetric]
    by (simp add: o p on_canvas_def)
qed

lemma renderLoop_eq:
  assumes cf: "currentFilter s = Some cf" and rdy: "videoReady s"
    and pos: "0 < width (canvas s)" "0 < height (canvas s)"
    and tr: "\<not> flipped (ctx (canvas s))" "shift (ctx (canvas s)) = 0"
    and gco: "globalCompositeOperation (ctx (canvas s)) = ''source-over''"
    and vid: "videoWidth video = width (canvas s)" "videoHeight video = height (canvas s)"
      "length (frame_data video) = length (pixels (canvas s))" "opaque (frame_data video)"
    and pre: "pre = s\<lparr>canvas := (canvas s)\<lparr>pixels := mirror_rows (width (canvas s)) (frame_data video),
                 ctx := (ctx (canvas s))\<lparr>shift := int (width (canvas s)), flipped := True,
                                          ctx_filter := ''none''\<rparr>,
                 saved := ctx (canvas s) # saved (canvas s)\<rparr>\<rparr>"
    and live: "live = snd (applyOverlayFilter P (id' cf) pre)"
  shows "renderLoop P video s = (None, (on_canvas ctx_restore live)\<lparr>frame_requested := True\<rparr>)"
proof -
  define s4 where "s4 = on_canvas clearRect (on_canvas scale_mirror
      (on_canvas (translate_x (int (width (canvas (on_canvas ctx_save s))))) (on_canvas ctx_save s)))"
  have w1: "width (canvas (on_canvas ctx_save s)) = width (canvas s)"
    by (simp add: on_canvas_def ctx_save_def)
  have c4: "currentFilter s4 = Some cf"
    using cf by (simp add: s4_def on_canvas_def)
  have s6: "on_canvas (drawImage_video P video) (applyDynamicFilter (id' cf) s4) = pre"
    unfolding pre s4_def w1
    by (simp add: on_canvas_def applyDynamicFilter_def
        live_canvas [OF pos(1) tr gco vid, of P])
  have p: "0 < width (canvas pre)" "0 < height (canvas pre)"
    using pos by (simp_all add: pre)
  note o = overlay_on_pre [OF p(1,2), of P "id' cf", folded live]
  have "renderLoop P video s =
      and_then (applyOverlayFilter P (id' cf)
                  (on_canvas (drawImage_video P video) (applyDynamicFilter (id' cf) s4)))
        (\<lambda>s7. (None, (on_canvas ctx_restore s7)\<lparr>frame_requested := True\<rparr>))"
    unfolding renderLoop_def Let_def s4_def [symmetric] using rdy c4 by simp
  then show ?thesis
    unfolding s6 and_then_None [OF o(1)] live [symmetric] .
qed


text \<open>
  C3, as stated, fails. There is no scratch buffer: \<^verbatim>\<open>takeScreenshot\<close> draws on the canvas
  the render loop draws on. After a render tick on a 2 \<times> 1 canvas with the Trickster
  filter the live buffer holds the mirrored image; the screenshot overwrites it with the
  un-mirrored one. And the restore is skipped when an exception leaves the function: on a
  canvas without pixels \<^verbatim>\<open>getImageData\<close> throws, and the saved drawing state stays on the
  stack.
\<close>

theorem C3_snapshot_counterexample:
  "pixels (canvas (snd (renderLoop example_platform \<lparr>videoWidth = 2, videoHeight = 1, frame_data = [200, 200, 200, 255, 10, 10, 10, 255]\<rparr> (snd (applyFilter ''trickster'' (init_app 2 1)))))) = [0, 0, 0, 255, 255, 0, 0, 255]
   \<and> pixels (canvas (snd (takeScreenshot example_platform \<lparr>videoWidth = 2, videoHeight = 1, frame_data = [200, 200, 200, 255, 10, 10, 10, 255]\<rparr>
                              (snd (renderLoop example_platform \<lparr>videoWidth = 2, videoHeight = 1, frame_data = [200, 200, 200, 255, 10, 10, 10, 255]\<rparr> (snd (applyFilter ''trickster'' (init_app 2 1))))))))
       = [255, 0, 0, 255, 0, 0, 0, 255]
   \<and> saved (canvas (snd (applyFilter ''trickster'' (init_app 0 0)))) = []
   \<and> fst (takeScreenshot example_platform \<lparr>videoWidth = 0, videoHeight = 0, frame_data = []\<rparr> (snd (applyFilter ''trickster'' (init_app 0 0)))) = Some IndexSizeError
   \<and> saved (canvas (snd (takeScreenshot example_platform \<lparr>videoWidth = 0, videoHeight = 0, frame_data = []\<rparr> (snd (applyFilter ''trickster'' (init_app 0 0)))))) = [default_ctx]"
  by code_simp

text \<open>
  C3, amended. On a canvas that has pixels, in the un-mirrored drawing state the render
  loop leaves behind, with a video frame of the size of the canvas: \<^verbatim>\<open>takeScreenshot\<close>
  returns normally; it clears the live canvas itself, resets the filter, draws the frame
  as it is (\<open>shot_pre\<close>) and runs the overlay of the current filter on it, which are the
  steps of a render tick, whose canvas before the overlay (\<open>live_pre\<close>) holds the same frame
  with every row reversed; the canvas keeps the screenshot's pixels (the live buffer is
  overwritten), the download gets their encoding, and on this normal path the drawing
  state and the stack of saved states are as before the call.
\<close>

theorem C3_snapshot:
  assumes "currentFilter s = Some cf" and "videoReady s"
    and "0 < width (canvas s)" and "0 < height (canvas s)"
    and "length (pixels (canvas s)) = 4 * (width (canvas s) * height (canvas s))"
    and "\<not> flipped (ctx (canvas s))" and "shift (ctx (canvas s)) = 0"
    and "globalCompositeOperation (ctx (canvas s)) = ''source-over''"
    and "videoWidth video = width (canvas s)" and "videoHeight video = height (canvas s)"
    and "length (frame_data video) = length (pixels (canvas s))" and "opaque (frame_data video)"
    and "shot_pre = s\<lparr>canvas := (canvas s)\<lparr>pixels := frame_data video,
                 ctx := (ctx (canvas s))\<lparr>ctx_filter := ''none''\<rparr>,
                 saved := ctx (canvas s) # saved (canvas s)\<rparr>\<rparr>"
    and "shot = snd (applyOverlayFilter P (id' cf) shot_pre)"
    and "live_pre = s\<lparr>canvas := (canvas s)\<lparr>pixels := mirror_rows (width (canvas s)) (frame_data video),
                 ctx := (ctx (canvas s))\<lparr>shift := int (width (canvas s)), flipped := True,
                                          ctx_filter := ''none''\<rparr>,
                 saved := ctx (canvas s) # saved (canvas s)\<rparr>\<rparr>"
    and "live = snd (applyOverlayFilter P (id' cf) live_pre)"
  shows "takeScreenshot P video s =
           (None, (on_canvas ctx_restore shot)\<lparr>downloads := downloads s @
              [(''jungian_mirror_'' @ id' cf @ ''.png'',
                DataURL (toDataURL P ''image/png'' (width (canvas s)) (height (canvas s))
                           (pixels (canvas shot))))]\<rparr>)
    \<and> pixels (canvas (snd (takeScreenshot P video s))) = pixels (canvas shot)
    \<and> ctx (canvas (snd (takeScreenshot P video s))) = ctx (canvas s)
    \<and> saved (canvas (snd (takeScreenshot P video s))) = saved (canvas s)
    \<and> renderLoop P video s = (None, (on_canvas ctx_restore live)\<lparr>frame_requested := True\<rparr>)
    \<and> pixels (canvas (snd (renderLoop P video s))) = pixels (canvas live)
    \<and> (\<forall>x < width (canvas s). \<forall>y < height (canvas s). \<forall>k < 4.
          pixels (canvas live_pre) ! (4 * (y * width (canvas s) + x) + k)
          = pixels (canvas shot_pre) ! (4 * (y * width (canvas s) + (width (canvas s) - 1 - x)) + k))"
proof -
  note t = takeScreenshot_eq [OF assms(1,3,4,6-14)]
  note r = renderLoop_eq [OF assms(1-4,6-12,15,16)]
  have p: "0 < width (canvas shot_pre)" "0 < height (canvas shot_pre)"
    "saved (canvas shot_pre) = ctx (canvas s) # saved (canvas s)"
    using assms(3,4) by (simp_all add: assms(13))
  note o = overlay_on_pre [OF p(1,2), of P "id' cf", folded assms(14)]
  have sv: "saved (canvas shot) = ctx (canvas s) # saved (canvas s)"
    using o(4) p(3) by simp
  note cr = ctx_restore_pushed [OF sv]
  have q: "0 < width (canvas live_pre)" "0 < height (canvas live_pre)"
    "saved (canvas live_pre) = ctx (canvas s) # saved (canvas s)"
    using assms(3,4) by (simp_all add: assms(15))
  note ol = overlay_on_pre [OF q(1,2), of P "id' cf", folded assms(16)]
  have svl: "saved (canvas live) = ctx (canvas s) # saved (canvas s)"
    using ol(4) q(3) by simp
  note crl = ctx_restore_pushed [OF svl]
  have len: "length (frame_data video) = 4 * (width (canvas s) * height (canvas s))"
    using assms(5,11) by simp
  have m: "pixels (canvas live_pre) ! (4 * (y * width (canvas s) + x) + k)
          = pixels (canvas shot_pre) ! (4 * (y * width (canvas s) + (width (canvas s) - 1 - x)) + k)"
    if "x < width (canvas s)" "y < height (canvas s)" "k < 4" for x y k
    using mirror_rows_pixel [OF that len] by (simp add: assms(13,15))
  show ?thesis
    unfolding t r using cr crl m by (simp add: on_canvas_def)
qed

theorem C3_snapshot_witness:
  "currentFilter (snd (applyFilter ''trickster'' (init_app 2 1))) = Some (archetypes ! 4) \<and> videoReady (snd (applyFilter ''trickster'' (init_app 2 1)))
   \<and> 0 < width (canvas (snd (applyFilter ''trickster'' (init_app 2 1)))) \<and> 0 < height (canvas (snd (applyFilter ''trickster'' (init_app 2 1))))
   \<and> length (pixels (canvas (snd (applyFilter ''trickster'' (init_app 2 1))))) = 4 * (width (canvas (snd (applyFilter ''trickster'' (init_app 2 1)))) * height (canvas (snd (applyFilter ''trickster'' (init_app 2 1)))))
   \<and> \<not> flipped (ctx (canvas (snd (applyFilter ''trickster'' (init_app 2 1))))) \<and> shift (ctx (canvas (snd (applyFilter ''trickster'' (init_app 2 1))))) = 0
   \<and> globalCompositeOperation (ctx (canvas (snd (applyFilter ''trickster'' (init_app 2 1))))) = ''source-over''
   \<and> videoWidth \<lparr>videoWidth = 2, videoHeight = 1, frame_data = [200, 200, 200, 255, 10, 10, 10, 255]\<rparr> = width (canvas (snd (applyFilter ''trickster'' (init_app 2 1)))) \<and> videoHeight \<lparr>videoWidth = 2, videoHeight = 1, frame_data = [200, 200, 200, 255, 10, 10, 10, 255]\<rparr> = height (canvas (snd (applyFilter ''trickster'' (init_app 2 1))))
   \<and> length (frame_data \<lparr>videoWidth = 2, videoHeight = 1, frame_data = [200, 200, 200, 255, 10, 10, 10, 255]\<rparr>) = length (pixels (canvas (snd (applyFilter ''trickster'' (init_app 2 1))))) \<and> opaque (frame_data \<lparr>videoWidth = 2, videoHeight = 1, frame_data = [200, 200, 200, 255, 10, 10, 10, 255]\<rparr>)
   \<and> fst (takeScreenshot example_platform \<lparr>videoWidth = 2, videoHeight = 1, frame_data = [200, 200, 200, 255, 10, 10, 10, 255]\<rparr> (snd (applyFilter ''trickster'' (init_app 2 1)))) = None
   \<and> ctx (canvas (snd (takeScreenshot example_platform \<lparr>videoWidth = 2, videoHeight = 1, frame_data = [200, 200, 200, 255, 10, 10, 10, 255]\<rparr> (snd (applyFilter ''trickster'' (init_app 2 1)))))) = ctx (canvas (snd (applyFilter ''trickster'' (init_app 2 1))))
   \<and> saved (canvas (snd (takeScreenshot example_platform \<lparr>videoWidth = 2, videoHeight = 1, frame_data = [200, 200, 200, 255, 10, 10, 10, 255]\<rparr> (snd (applyFilter ''trickster'' (init_app 2 1)))))) = saved (canvas (snd (applyFilter ''trickster'' (init_app 2 1))))
   \<and> fst (renderLoop example_platform \<lparr>videoWidth = 2, videoHeight = 1, frame_data = [200, 200, 200, 255, 10, 10, 10, 255]\<rparr> (snd (applyFilter ''trickster'' (init_app 2 1)))) = None
   \<and> pixels (canvas (snd (takeScreenshot example_platform \<lparr>videoWidth = 2, videoHeight = 1, frame_data = [200, 200, 200, 255, 10, 10, 10, 255]\<rparr> (snd (applyFilter ''trickster'' (init_app 2 1)))))) = [255, 0, 0, 255, 0, 0, 0, 255]
   \<and> pixels (canvas (snd (renderLoop example_platform \<lparr>videoWidth = 2, videoHeight = 1, frame_data = [200, 200, 200, 255, 10, 10, 10, 255]\<rparr> (snd (applyFilter ''trickster'' (init_app 2 1)))))) = [0, 0, 0, 255, 255, 0, 0, 255]"
proof -
  define s0 where "s0 = (snd (applyFilter ''trickster'' (init_app 2 1)))"
  define v where "v = \<lparr>videoWidth = 2, videoHeight = 1, frame_data = [200, 200, 200, 255, 10, 10, 10, 255]\<rparr>"
  have h: "currentFilter s0 = Some (archetypes ! 4)" "videoReady s0"
    "0 < width (canvas s0)" "0 < height (canvas s0)"
    "length (pixels (canvas s0)) = 4 * (width (canvas s0) * height (canvas s0))"
    "\<not> flipped (ctx (canvas s0))" "shift (ctx (canvas s0)) = 0"
    "globalCompositeOperation (ctx (canvas s0)) = ''source-over''"
    "videoWidth v = width (canvas s0)" "videoHeight v = height (canvas s0)"
    "length (frame_data v) = length (pixels (canvas s0))" "opaque (frame_data v)"
    unfolding s0_def v_def by code_simp+
  have px: "pixels (canvas (snd (takeScreenshot example_platform v s0))) = [255, 0, 0, 255, 0, 0, 0, 255]"
    "pixels (canvas (snd (renderLoop example_platform v s0))) = [0, 0, 0, 255, 255, 0, 0, 255]"
    unfolding s0_def v_def by code_simp+
  note c = C3_snapshot [OF h refl refl refl refl, of example_platform]
  have c1: "fst (takeScreenshot example_platform v s0) = None"
    using c [THEN conjunct1] by (simp only: fst_conv)
  have c3: "ctx (canvas (snd (takeScreenshot example_platform v s0))) = ctx (canvas s0)"
    using c [THEN conjunct2, THEN conjunct2, THEN conjunct1] .
  have c4: "saved (canvas (snd (takeScreenshot example_platform v s0))) = saved (canvas s0)"
    using c [THEN conjunct2, THEN conjunct2, THEN conjunct2, THEN conjunct1] .
  have c5: "fst (renderLoop example_platform v s0) = None"
    using c [THEN conjunct2, THEN conjunct2, THEN conjunct2, THEN conjunct2, THEN conjunct1]
    by (simp only: fst_conv)
  from h px c1 c3 c4 c5 show ?thesis
    unfolding s0_def [symmetric] v_def [symmetric] by (intro conjI)
qed

end
